theory Spec2Isabelle
  imports Main "HOL-Library.AList" "HOL-Library.Extended_Nat"
begin

section \<open>Strings\<close>

text \<open>
  A Python \<open>str\<close> is modelled as a \<open>string\<close>: the character with code \<open>n\<close> stands for the
  Unicode code point \<open>n\<close>, so the model covers the texts whose code points lie below 256.
  The character classes below are Python's on that range.
\<close>

definition code :: "char \<Rightarrow> nat" where
  "code c = of_char c"

definition is_space :: "char \<Rightarrow> bool" where
  \<comment> \<open>\<open>str.isspace\<close>, the characters removed by \<open>str.strip()\<close> and matched by \<open>\s\<close>\<close>
  "is_space c = (let n = code c in (9 \<le> n \<and> n \<le> 13) \<or> (28 \<le> n \<and> n \<le> 32) \<or> n = 133 \<or> n = 160)"

definition is_linebreak :: "char \<Rightarrow> bool" where
  \<comment> \<open>the line boundaries of \<open>str.splitlines()\<close>\<close>
  "is_linebreak c = (let n = code c in (10 \<le> n \<and> n \<le> 13) \<or> (28 \<le> n \<and> n \<le> 30) \<or> n = 133)"

definition is_letter :: "char \<Rightarrow> bool" where
  \<comment> \<open>\<open>[A-Za-z]\<close>\<close>
  "is_letter c = (let n = code c in (65 \<le> n \<and> n \<le> 90) \<or> (97 \<le> n \<and> n \<le> 122))"

definition is_decimal :: "char \<Rightarrow> bool" where
  \<comment> \<open>\<open>\d\<close>: the decimal digits\<close>
  "is_decimal c = (let n = code c in 48 \<le> n \<and> n \<le> 57)"

definition isdigit_char :: "char \<Rightarrow> bool" where
  \<comment> \<open>the characters \<open>str.isdigit\<close> accepts: the decimal digits and the superscripts 1, 2, 3\<close>
  "isdigit_char c = (let n = code c in (48 \<le> n \<and> n \<le> 57) \<or> n = 178 \<or> n = 179 \<or> n = 185)"

definition isdigit :: "string \<Rightarrow> bool" where
  \<comment> \<open>\<open>s.isdigit()\<close>: false on the empty string\<close>
  "isdigit s = (s \<noteq> [] \<and> list_all isdigit_char s)"

definition lower_char :: "char \<Rightarrow> char" where
  "lower_char c = (let n = code c in
     if (65 \<le> n \<and> n \<le> 90) \<or> (192 \<le> n \<and> n \<le> 222 \<and> n \<noteq> 215) then char_of (n + 32) else c)"

definition lower :: "string \<Rightarrow> string" where
  \<comment> \<open>\<open>s.lower()\<close>\<close>
  "lower s = map lower_char s"

definition strip :: "string \<Rightarrow> string" where
  \<comment> \<open>\<open>s.strip()\<close>\<close>
  "strip s = rev (dropWhile is_space (rev (dropWhile is_space s)))"

text \<open>
  \<open>s.splitlines()\<close>: a line ends at each line boundary, carriage return followed by line
  feed counts as one boundary, and no empty line is produced after the last boundary.
  The first argument is the current line, reversed.
\<close>

fun splitlines_from :: "string \<Rightarrow> string \<Rightarrow> string list" where
  "splitlines_from cur [] = (if cur = [] then [] else [rev cur])"
| "splitlines_from cur (c # cs) =
     (if is_linebreak c then
        (if code c = 13 then
           (case cs of
              [] \<Rightarrow> [rev cur]
            | d # ds \<Rightarrow> if code d = 10 then rev cur # splitlines_from [] ds
                       else rev cur # splitlines_from [] (d # ds))
         else rev cur # splitlines_from [] cs)
      else splitlines_from (c # cur) cs)"

definition splitlines :: "string \<Rightarrow> string list" where
  "splitlines s = splitlines_from [] s"

text \<open>\<open>re.sub(r'\s+', ' ', s)\<close>: every maximal run of whitespace becomes one space.\<close>

function collapse_ws :: "string \<Rightarrow> string" where
  "collapse_ws [] = []"
| "collapse_ws (c # cs) =
     (if is_space c then CHR '' '' # collapse_ws (dropWhile is_space cs)
      else c # collapse_ws cs)"
  by pat_completeness auto
termination
  by (relation "measure length") (auto simp: length_dropWhile_le less_Suc_eq_le)

text \<open>
  \<open>int(s)\<close> for a string that passed \<open>s.isdigit()\<close>: the value of a string of decimal
  digits; \<open>ValueError\<close> when a superscript digit occurs, and when the string has more than
  4300 digits, the limit of CPython 3.11 and later (\<open>sys.int_max_str_digits\<close>). (Signs,
  blanks and underscores, which \<open>int\<close> also reads, never pass \<open>isdigit\<close>.)
\<close>

datatype py_error = KeyError | ValueError

definition digit_val :: "char \<Rightarrow> int" where
  "digit_val c = int (code c) - 48"

definition decimal_value :: "string \<Rightarrow> int" where
  "decimal_value s = foldl (\<lambda>n c. 10 * n + digit_val c) 0 s"

definition py_int :: "string \<Rightarrow> py_error + int" where
  "py_int s =
     (if s \<noteq> [] \<and> list_all is_decimal s \<and> length s \<le> 4300 then Inr (decimal_value s)
      else Inl ValueError)"

section \<open>Edit distance\<close>

text \<open>
  \<open>Levenshtein.distance\<close> is a library function: the least number of insertions, deletions
  and substitutions of one character that turn one string into the other. \<open>lev\<close> is that
  number by its recurrence; \<open>distance\<close> computes it row by row, and is what the model runs.
\<close>

fun lev :: "'a list \<Rightarrow> 'a list \<Rightarrow> nat" where
  "lev [] ys = length ys"
| "lev (x # xs) [] = Suc (length xs)"
| "lev (x # xs) (y # ys) =
     min (min (Suc (lev xs (y # ys))) (Suc (lev (x # xs) ys))) (lev xs ys + (if x = y then 0 else 1))"

fun lev_cell :: "'a \<Rightarrow> 'a \<Rightarrow> nat \<Rightarrow> nat \<Rightarrow> nat list \<Rightarrow> nat list" where
  "lev_cell x y up diag rest =
     min (min (Suc up) (Suc (hd rest))) (diag + (if x = y then 0 else 1)) # rest"

fun lev_row :: "'a \<Rightarrow> 'a list \<Rightarrow> nat list \<Rightarrow> nat list" where
  "lev_row x (y # ys) (up # diag # prev) = lev_cell x y up diag (lev_row x ys (diag # prev))"
| "lev_row x ys prev = map Suc prev"

primrec lev_rows :: "'a list \<Rightarrow> 'a list \<Rightarrow> nat list" where
  "lev_rows [] ys = rev [0..<Suc (length ys)]"
| "lev_rows (x # xs) ys = lev_row x ys (lev_rows xs ys)"

definition distance :: "'a list \<Rightarrow> 'a list \<Rightarrow> nat" where
  "distance xs ys = hd (lev_rows xs ys)"

text \<open>The distances from \<open>xs\<close> to every suffix of \<open>ys\<close>, the longest first: what a row holds.\<close>

fun lev_suffixes :: "'a list \<Rightarrow> 'a list \<Rightarrow> nat list" where
  "lev_suffixes xs [] = [lev xs []]"
| "lev_suffixes xs (y # ys) = lev xs (y # ys) # lev_suffixes xs ys"

section \<open>Extraction of votes from text\<close>

definition DEFAULT_CANDIDATES :: "string list" where
  "DEFAULT_CANDIDATES =
     [''Tobias'', ''Chilungo'', ''Chakwera'', ''Nankhumwa'', ''Bandawe'', ''Banda'',
      ''Muluzi'', ''Kaliya'', ''Mutharika'', ''Mwenifumbo'', ''Kabambe'', ''Chibambo'',
      ''Swira'', ''Mbewe'', ''Chilumpha'', ''Chipojola'', ''Dube'']"

definition REGIONS :: "string list" where
  "REGIONS = [''Northern'', ''Central'', ''Southern'']"

text \<open>
  A tally is a Python \<open>dict\<close> from names to counts, kept as an association list in insertion
  order; \<open>AList.update\<close> is the assignment \<open>d[k] = v\<close> (a present key keeps its place).
\<close>

type_synonym tally = "(string \<times> int) list"

text \<open>
  The pattern \<open>([A-Za-z\.\-\s]+)[:\s]+([\d,]+)\<close> of \<open>re.match\<close>, which matches at the start
  of the line and need not reach its end. \<open>plus_splits P s\<close> lists the ways a greedy
  \<open>[P]+\<close> can match a prefix of \<open>s\<close>, in the order backtracking tries them (longest
  first), each with the rest of the string; \<open>vote_pattern\<close> returns the groups of the first
  way the whole pattern matches.
\<close>

definition name_char :: "char \<Rightarrow> bool" where
  "name_char c = (is_letter c \<or> code c = 46 \<or> code c = 45 \<or> is_space c)"

definition sep_char :: "char \<Rightarrow> bool" where
  "sep_char c = (code c = 58 \<or> is_space c)"

definition vote_char :: "char \<Rightarrow> bool" where
  "vote_char c = (is_decimal c \<or> code c = 44)"

fun plus_splits :: "(char \<Rightarrow> bool) \<Rightarrow> string \<Rightarrow> (string \<times> string) list" where
  "plus_splits P [] = []"
| "plus_splits P (c # cs) =
     (if P c then map (\<lambda>(a, b). (c # a, b)) (plus_splits P cs) @ [([c], cs)] else [])"

definition vote_matches :: "string \<Rightarrow> (string \<times> string) list" where
  "vote_matches s =
     concat (map (\<lambda>(g1, r1).
       concat (map (\<lambda>(sp, r2).
         map (\<lambda>(g2, r3). (g1, g2)) (plus_splits vote_char r2))
       (plus_splits sep_char r1)))
     (plus_splits name_char s))"

definition vote_pattern :: "string \<Rightarrow> (string \<times> string) option" where
  "vote_pattern s = (case vote_matches s of [] \<Rightarrow> None | m # _ \<Rightarrow> Some m)"

text \<open>
  The loop over \<open>DEFAULT_CANDIDATES\<close> (lines 84 to 90): \<open>best_match\<close> starts as \<open>None\<close>,
  \<open>min_distance\<close> as infinity, and a candidate replaces the best one only when strictly
  nearer.
\<close>

definition dist_to :: "string \<Rightarrow> string \<Rightarrow> nat" where
  \<comment> \<open>line 87\<close>
  "dist_to raw_name candidate = distance (lower raw_name) (lower candidate)"

fun closest :: "string \<Rightarrow> string list \<Rightarrow> string option \<times> enat \<Rightarrow> string option \<times> enat" where
  "closest raw_name [] acc = acc"
| "closest raw_name (candidate # rest) (best_match, min_distance) =
     (let dist = enat (dist_to raw_name candidate) in
      if dist < min_distance then closest raw_name rest (Some candidate, dist)
      else closest raw_name rest (best_match, min_distance))"

text \<open>
  The body of the loop over the lines (lines 71 to 99). In the branch \<open>min_distance <= 2\<close>
  the best match is never \<open>None\<close>, since the distance is then finite.
\<close>

definition process_line :: "tally \<Rightarrow> string \<Rightarrow> py_error + tally" where
  "process_line matched line =
     (let clean_line = strip (collapse_ws line) in
      case vote_pattern clean_line of
        None \<Rightarrow> Inr matched
      | Some (g1, g2) \<Rightarrow>
          (let raw_name = strip g1;
               vote_str = strip (filter (\<lambda>c. code c \<noteq> 44) g2)
           in if isdigit vote_str then
                (case py_int vote_str of
                   Inl e \<Rightarrow> Inl e
                 | Inr vote_count \<Rightarrow>
                     (case closest raw_name DEFAULT_CANDIDATES (None, \<infinity>) of
                        (best_match, min_distance) \<Rightarrow>
                          if min_distance \<le> 2 then
                            (case best_match of
                               Some b \<Rightarrow> Inr (AList.update b vote_count matched)
                             | None \<Rightarrow> Inr matched)
                          else Inr matched))
              else Inr matched))"

definition text_lines :: "string \<Rightarrow> string list" where
  \<comment> \<open>line 66\<close>
  "text_lines text = map strip (filter (\<lambda>line. strip line \<noteq> []) (splitlines text))"

fun extract_loop :: "tally \<Rightarrow> string list \<Rightarrow> py_error + tally" where
  "extract_loop matched [] = Inr matched"
| "extract_loop matched (line # lines) =
     (case process_line matched line of
        Inl e \<Rightarrow> Inl e
      | Inr matched' \<Rightarrow> extract_loop matched' lines)"

definition extract_votes :: "string \<Rightarrow> py_error + tally" where
  "extract_votes text = extract_loop [] (text_lines text)"

section \<open>What the specification says of a line\<close>

text \<open>
  A line has the shape of the pattern when it starts with a name part, a separator and a
  numeric part: one or more characters of the name class, of the separator class and of
  the digit class, in this order.
\<close>

definition has_shape :: "string \<Rightarrow> bool" where
  "has_shape s \<longleftrightarrow>
     (\<exists>n p d r. s = n @ p @ d @ r \<and> n \<noteq> [] \<and> list_all name_char n
        \<and> p \<noteq> [] \<and> list_all sep_char p \<and> d \<noteq> [] \<and> list_all vote_char d)"

text \<open>
  A way the pattern matches \<open>s\<close>, given by its two groups: the name part, a separator, and
  the numeric part taken as far as it goes.
\<close>

definition match_at :: "string \<Rightarrow> string \<times> string \<Rightarrow> bool" where
  "match_at s m \<longleftrightarrow>
     (\<exists>sp r3. s = fst m @ sp @ snd m @ r3 \<and> fst m \<noteq> [] \<and> list_all name_char (fst m)
        \<and> sp \<noteq> [] \<and> list_all sep_char sp \<and> snd m \<noteq> [] \<and> list_all vote_char (snd m)
        \<and> (r3 = [] \<or> \<not> vote_char (hd r3)))"

text \<open>
  The catalog entry a name resolves to: the entry at the least case-insensitive edit
  distance, the first such entry in catalog order.
\<close>

definition nearest :: "string \<Rightarrow> string" where
  "nearest n = arg_min_list (\<lambda>c. lev (lower n) (lower c)) DEFAULT_CANDIDATES"

text \<open>
  A well-formed line is a name, a separator and digits with optional thousands separators.
  A name is made of letters, blanks, periods and hyphens, and neither starts nor ends
  with a blank; a separator of colons and blanks; the numeric part of digits and commas,
  with a digit at least.
\<close>

definition well_formed :: "string \<Rightarrow> string \<Rightarrow> string \<Rightarrow> bool" where
  "well_formed n p d \<longleftrightarrow>
     n \<noteq> [] \<and> list_all name_char n \<and> \<not> is_space (hd n) \<and> \<not> is_space (last n)
     \<and> p \<noteq> [] \<and> list_all sep_char p
     \<and> list_all vote_char d \<and> list_ex is_decimal d"

text \<open>
  A line after the normalisation of its whitespace, as the specification reads it and as
  far as the program follows it: either a well-formed line of at most 4300 digits whose
  name lies within edit distance 2 of some catalog entry, or a line without the shape.
  The entry a well-formed line stands for is the catalog entry nearest to the name, with
  the value of the digits.
\<close>

datatype spec_line = Vote string string string | Other string

fun spec_text :: "spec_line \<Rightarrow> string" where
  "spec_text (Vote n p d) = n @ p @ d"
| "spec_text (Other s) = s"

fun spec_ok :: "spec_line \<Rightarrow> bool" where
  "spec_ok (Vote n p d) =
     (well_formed n p d \<and> length (filter is_decimal d) \<le> 4300
      \<and> list_ex (\<lambda>c. lev (lower n) (lower c) \<le> 2) DEFAULT_CANDIDATES)"
| "spec_ok (Other s) = (\<not> has_shape s)"

fun spec_entries :: "spec_line \<Rightarrow> tally" where
  "spec_entries (Vote n p d) = [(nearest n, decimal_value (filter (\<lambda>c. code c \<noteq> 44) d))]"
| "spec_entries (Other s) = []"

section \<open>Sessions, events and effects\<close>

text \<open>
  \<open>user_sessions\<close> maps a user identifier to that user's session; a session is the
  dictionary created by \<open>start\<close>. The key \<open>candidate_to_edit\<close> is absent until a candidate
  is chosen, which \<open>None\<close> stands for, as for \<open>region\<close> and \<open>district\<close> holding \<open>None\<close>.
\<close>

type_synonym user_id = nat

record session =
  candidates :: tally
  region :: "string option"
  district :: "string option"
  votes_confirmed :: bool
  candidate_to_edit :: "string option"

type_synonym store = "user_id \<rightharpoonup> session"

datatype state =
    CHOOSE_INPUT_MODE | WAIT_FOR_IMAGE | WAIT_FOR_TEXT | EDIT_MENU | BULK_EDIT_ALL
  | EDIT_SINGLE_CANDIDATE | ADD_CANDIDATE_NAME | REMOVE_CANDIDATE_NAME
  | SELECT_REGION | SELECT_DISTRICT | CONFIRM_OVERRIDE

text \<open>A handler returns the next state, or \<open>ConversationHandler.END\<close>, modelled as \<open>None\<close>.\<close>

abbreviation END :: "state option" where
  "END \<equiv> None"

text \<open>
  The texts sent to the user, one constructor for each message of the source, with the
  values the message shows. Menus and text escaping are left out.
\<close>

datatype message =
    Welcome | AskPhoto | AskText | Cancelled | ChooseValidOption
  | SendAPhoto | Processing | OcrFailed | NoVotesFound | CouldNotParse | ParsedVotes tally
  | AskBulk | SelectToEdit "string list" | AskNewName | SelectToRemove "string list"
  | ChooseRegion | CurrentVotes tally | SelectValidOption
  | NoValidVotes | UpdatedVotes tally
  | AskCount string | SelectValidCandidate
  | NoCandidateSelected | AskValidInteger | UpdatedCandidate string string
  | InvalidName | AddedCandidate string
  | RemovedCandidate string | CandidateNotFound
  | RegionSelected string "string list" | SelectARegion
  | AskOverride string | DistrictSelected string | SelectRegionAgain
  | SelectADistrict "string option" "string list"
  | Overriding | ChooseAnotherDistrict "string option" "string list" | ChooseAnOption
  | SessionExpired | IncompleteData | Submitting
  | ResultsSubmitted string tally | SubmitFailed string
  | CancelledByCommand | NotUnderstood

record payload =
  p_region :: string
  p_district :: string
  p_timestamp :: string
  p_sender :: string
  p_votes :: tally

text \<open>
  What a handler does besides changing the store, in order: the messages it shows and the
  calls it makes to the recognition service and to the sheet.
\<close>

datatype effect =
    Say message
  | CallOcr string
  | CallSubmittedDistricts
  | CallSheet payload

text \<open>
  The outcome of an HTTP call made through \<open>requests\<close>: an exception with its text, or the
  decoded body. For the recognition service the body is the list of the \<open>ParsedText\<close>
  fields of \<open>ParsedResults\<close>; for the query of submitted districts, the list
  \<open>districts\<close>; for a submission, the fields \<open>success\<close> and \<open>message\<close>.
\<close>

datatype 'a http = RequestException string | Json 'a

record sheet_result =
  success :: bool
  message_text :: "string option"

record env =
  ocr_response :: "string list http"
  districts_response :: "string list http"
  sheet_response :: "sheet_result http"
  now :: string
  sender :: string

definition ocr_image :: "string list http \<Rightarrow> string option" where
  "ocr_image resp =
     (case resp of
        RequestException e \<Rightarrow> None
      | Json parsed \<Rightarrow> (case parsed of [] \<Rightarrow> None | t # _ \<Rightarrow> Some t))"

definition get_submitted_districts :: "string list http \<Rightarrow> string list" where
  "get_submitted_districts resp =
     (case resp of RequestException e \<Rightarrow> [] | Json districts \<Rightarrow> map lower districts)"

definition send_to_google_sheet :: "sheet_result http \<Rightarrow> sheet_result" where
  "send_to_google_sheet resp =
     (case resp of
        RequestException e \<Rightarrow> \<lparr>success = False, message_text = Some e\<rparr>
      | Json r \<Rightarrow> r)"

text \<open>
  The outcome of a handler: the store after it, its effects, and the state it returned or
  the exception it raised. No handler changes the store before it raises.
\<close>

record outcome =
  sessions :: store
  effects :: "effect list"
  returned :: "py_error + state option"

definition ret :: "store \<Rightarrow> effect list \<Rightarrow> state option \<Rightarrow> outcome" where
  "ret st fx s = \<lparr>sessions = st, effects = fx, returned = Inr s\<rparr>"

definition raise :: "store \<Rightarrow> effect list \<Rightarrow> py_error \<Rightarrow> outcome" where
  "raise st fx e = \<lparr>sessions = st, effects = fx, returned = Inl e\<rparr>"

definition startswith :: "string \<Rightarrow> string \<Rightarrow> bool" where
  \<comment> \<open>\<open>s.startswith(p)\<close>\<close>
  "startswith p s = (take (length p) s = p)"

text \<open>\<open>s.replace(old, "")\<close>: every occurrence of \<open>old\<close> is removed, from left to right.\<close>

function remove_all :: "string \<Rightarrow> string \<Rightarrow> string" where
  "remove_all old [] = []"
| "remove_all old (c # cs) =
     (if old \<noteq> [] \<and> startswith old (c # cs) then remove_all old (drop (length old) (c # cs))
      else c # remove_all old cs)"
  by pat_completeness auto
termination
  by (relation "measure (\<lambda>(old, s). length s)") auto

declare remove_all.simps [simp del]

definition has_key :: "string \<Rightarrow> tally \<Rightarrow> bool" where
  \<comment> \<open>\<open>k in d\<close>\<close>
  "has_key k d = (k \<in> set (map fst d))"

definition dict_update :: "tally \<Rightarrow> tally \<Rightarrow> tally" where
  \<comment> \<open>\<open>d.update(new)\<close>\<close>
  "dict_update d new = fold (\<lambda>(k, v). AList.update k v) new d"

section \<open>Handlers\<close>

definition start :: "store \<Rightarrow> user_id \<Rightarrow> outcome" where
  "start store uid =
     ret (store(uid \<mapsto>
            \<lparr>candidates = fold (\<lambda>c d. AList.update c 0 d) DEFAULT_CANDIDATES [],
             region = None, district = None, votes_confirmed = False,
             candidate_to_edit = None\<rparr>))
         [Say Welcome] (Some CHOOSE_INPUT_MODE)"

definition choose_input_mode_handler :: "store \<Rightarrow> user_id \<Rightarrow> string \<Rightarrow> outcome" where
  "choose_input_mode_handler store uid data =
     (if data = ''mode_image'' then ret store [Say AskPhoto] (Some WAIT_FOR_IMAGE)
      else if data = ''mode_text'' then ret store [Say AskText] (Some WAIT_FOR_TEXT)
      else if data = ''cancel'' then ret (store(uid := None)) [Say Cancelled] END
      else ret store [Say ChooseValidOption] (Some CHOOSE_INPUT_MODE))"

text \<open>
  The photo of the message is the list of the file paths of its sizes; the largest, the
  last one, is sent to the recognition service.
\<close>

definition receive_photo_handler :: "env \<Rightarrow> store \<Rightarrow> user_id \<Rightarrow> string list \<Rightarrow> outcome" where
  "receive_photo_handler ev store uid photo =
     (if photo = [] then ret store [Say SendAPhoto] (Some WAIT_FOR_IMAGE)
      else
        (let fx = [Say Processing, CallOcr (last photo)] in
         case ocr_image (ocr_response ev) of
           None \<Rightarrow> ret store (fx @ [Say OcrFailed]) (Some WAIT_FOR_IMAGE)
         | Some text \<Rightarrow>
             if text = [] then ret store (fx @ [Say OcrFailed]) (Some WAIT_FOR_IMAGE)
             else
               (case extract_votes text of
                  Inl e \<Rightarrow> raise store fx e
                | Inr votes \<Rightarrow>
                    if votes = [] then ret store (fx @ [Say NoVotesFound]) (Some WAIT_FOR_TEXT)
                    else
                      (case store uid of
                         None \<Rightarrow> raise store fx KeyError
                       | Some sess \<Rightarrow>
                           ret (store(uid \<mapsto> sess\<lparr>candidates := votes\<rparr>))
                               (fx @ [Say (ParsedVotes votes)]) (Some EDIT_MENU)))))"

definition receive_text_handler :: "store \<Rightarrow> user_id \<Rightarrow> string \<Rightarrow> outcome" where
  "receive_text_handler store uid text =
     (case extract_votes text of
        Inl e \<Rightarrow> raise store [] e
      | Inr votes \<Rightarrow>
          if votes = [] then ret store [Say CouldNotParse] (Some WAIT_FOR_TEXT)
          else
            (case store uid of
               None \<Rightarrow> raise store [] KeyError
             | Some sess \<Rightarrow>
                 ret (store(uid \<mapsto> sess\<lparr>candidates := votes\<rparr>))
                     [Say (ParsedVotes votes)] (Some EDIT_MENU)))"

definition edit_menu_handler :: "store \<Rightarrow> user_id \<Rightarrow> string \<Rightarrow> outcome" where
  "edit_menu_handler store uid action =
     (if action = ''bulk_edit'' then ret store [Say AskBulk] (Some BULK_EDIT_ALL)
      else if action = ''edit_individual'' then
        (case store uid of
           None \<Rightarrow> raise store [] KeyError
         | Some sess \<Rightarrow>
             ret store [Say (SelectToEdit (map fst (candidates sess)))] (Some EDIT_SINGLE_CANDIDATE))
      else if action = ''add_candidate'' then ret store [Say AskNewName] (Some ADD_CANDIDATE_NAME)
      else if action = ''remove_candidate'' then
        (case store uid of
           None \<Rightarrow> raise store [] KeyError
         | Some sess \<Rightarrow>
             ret store [Say (SelectToRemove (map fst (candidates sess)))] (Some REMOVE_CANDIDATE_NAME))
      else if action = ''submit_votes'' then ret store [Say ChooseRegion] (Some SELECT_REGION)
      else if action = ''back_edit_menu'' then
        (case store uid of
           None \<Rightarrow> raise store [] KeyError
         | Some sess \<Rightarrow> ret store [Say (CurrentVotes (candidates sess))] (Some EDIT_MENU))
      else if action = ''cancel'' then ret (store(uid := None)) [Say Cancelled] END
      else ret store [Say SelectValidOption] (Some EDIT_MENU))"

text \<open>
  The loop of \<open>bulk_edit_all_handler\<close> over the lines: a line without a colon, or whose
  part after the first colon is not made of digits, is skipped.
\<close>

fun bulk_loop :: "tally \<Rightarrow> string list \<Rightarrow> py_error + tally" where
  "bulk_loop new_votes [] = Inr new_votes"
| "bulk_loop new_votes (line # lines) =
     (if list_all (\<lambda>c. code c \<noteq> 58) line then bulk_loop new_votes lines
      else
        (let name = strip (takeWhile (\<lambda>c. code c \<noteq> 58) line);
             val = strip (tl (dropWhile (\<lambda>c. code c \<noteq> 58) line))
         in if \<not> isdigit val then bulk_loop new_votes lines
            else
              (case py_int val of
                 Inl e \<Rightarrow> Inl e
               | Inr n \<Rightarrow> bulk_loop (AList.update name n new_votes) lines)))"

definition bulk_edit_all_handler :: "store \<Rightarrow> user_id \<Rightarrow> string \<Rightarrow> outcome" where
  "bulk_edit_all_handler store uid text =
     (case bulk_loop [] (splitlines (strip text)) of
        Inl e \<Rightarrow> raise store [] e
      | Inr new_votes \<Rightarrow>
          if new_votes = [] then ret store [Say NoValidVotes] (Some BULK_EDIT_ALL)
          else
            (case store uid of
               None \<Rightarrow> raise store [] KeyError
             | Some sess \<Rightarrow>
                 (let updated = dict_update (candidates sess) new_votes in
                  ret (store(uid \<mapsto> sess\<lparr>candidates := updated\<rparr>))
                      [Say (UpdatedVotes updated)] (Some EDIT_MENU))))"

definition edit_single_candidate_handler :: "store \<Rightarrow> user_id \<Rightarrow> string \<Rightarrow> outcome" where
  "edit_single_candidate_handler store uid data =
     (if startswith ''edit_'' data then
        (let candidate = remove_all ''edit_'' data in
         case store uid of
           None \<Rightarrow> raise store [] KeyError
         | Some sess \<Rightarrow>
             ret (store(uid \<mapsto> sess\<lparr>candidate_to_edit := Some candidate\<rparr>))
                 [Say (AskCount candidate)] (Some EDIT_SINGLE_CANDIDATE))
      else if data = ''back_edit_menu'' then edit_menu_handler store uid data
      else if data = ''cancel'' then ret (store(uid := None)) [Say Cancelled] END
      else ret store [Say SelectValidCandidate] (Some EDIT_SINGLE_CANDIDATE))"

definition receive_single_candidate_vote :: "store \<Rightarrow> user_id \<Rightarrow> string \<Rightarrow> outcome" where
  "receive_single_candidate_vote store uid msg =
     (case store uid of
        None \<Rightarrow> raise store [] KeyError
      | Some sess \<Rightarrow>
          (case candidate_to_edit sess of
             None \<Rightarrow> ret store [Say NoCandidateSelected] (Some EDIT_MENU)
           | Some candidate \<Rightarrow>
               if candidate = [] then ret store [Say NoCandidateSelected] (Some EDIT_MENU)
               else
                 (let text = strip msg in
                  if \<not> isdigit text then ret store [Say AskValidInteger] (Some EDIT_SINGLE_CANDIDATE)
                  else
                    (case py_int text of
                       Inl e \<Rightarrow> raise store [] e
                     | Inr n \<Rightarrow>
                         ret (store(uid \<mapsto>
                                sess\<lparr>candidates := AList.update candidate n (candidates sess),
                                     candidate_to_edit := None\<rparr>))
                             [Say (UpdatedCandidate candidate text)] (Some EDIT_MENU)))))"

definition add_candidate_name_handler :: "store \<Rightarrow> user_id \<Rightarrow> string \<Rightarrow> outcome" where
  "add_candidate_name_handler store uid msg =
     (let new_name = strip msg in
      if new_name = [] then ret store [Say InvalidName] (Some ADD_CANDIDATE_NAME)
      else
        (case store uid of
           None \<Rightarrow> raise store [] KeyError
         | Some sess \<Rightarrow>
             if has_key new_name (candidates sess) then
               ret store [Say InvalidName] (Some ADD_CANDIDATE_NAME)
             else
               ret (store(uid \<mapsto> sess\<lparr>candidates := AList.update new_name 0 (candidates sess)\<rparr>))
                   [Say (AddedCandidate new_name)] (Some EDIT_MENU)))"

definition remove_candidate_name_handler :: "store \<Rightarrow> user_id \<Rightarrow> string \<Rightarrow> outcome" where
  "remove_candidate_name_handler store uid data =
     (if startswith ''remove_'' data then
        (let candidate = remove_all ''remove_'' data in
         case store uid of
           None \<Rightarrow> raise store [] KeyError
         | Some sess \<Rightarrow>
             if has_key candidate (candidates sess) then
               ret (store(uid \<mapsto> sess\<lparr>candidates := AList.delete candidate (candidates sess)\<rparr>))
                   [Say (RemovedCandidate candidate)] (Some EDIT_MENU)
             else ret store [Say CandidateNotFound] (Some EDIT_MENU))
      else if data = ''back_edit_menu'' then edit_menu_handler store uid data
      else if data = ''cancel'' then ret (store(uid := None)) [Say Cancelled] END
      else ret store [Say SelectValidCandidate] (Some REMOVE_CANDIDATE_NAME))"

definition select_region_handler :: "env \<Rightarrow> store \<Rightarrow> user_id \<Rightarrow> string \<Rightarrow> outcome" where
  "select_region_handler ev store uid data =
     (if startswith ''region_'' data then
        (let r = remove_all ''region_'' data in
         case store uid of
           None \<Rightarrow> raise store [] KeyError
         | Some sess \<Rightarrow>
             (let submitted_districts = get_submitted_districts (districts_response ev) in
              ret (store(uid \<mapsto> sess\<lparr>region := Some r\<rparr>))
                  [CallSubmittedDistricts, Say (RegionSelected r submitted_districts)]
                  (Some SELECT_DISTRICT)))
      else if data = ''cancel'' then ret (store(uid := None)) [Say Cancelled] END
      else ret store [Say SelectARegion] (Some SELECT_REGION))"

text \<open>
  \<open>submit_data\<close>. \<open>region and district and votes\<close> holds when both strings are set and not
  empty and the tally has an entry. The effects of the caller so far are passed in.
\<close>

definition submit_data :: "env \<Rightarrow> store \<Rightarrow> user_id \<Rightarrow> effect list \<Rightarrow> outcome" where
  "submit_data ev store uid fx =
     (case store uid of
        None \<Rightarrow> ret store (fx @ [Say SessionExpired]) END
      | Some data \<Rightarrow>
          (case (region data, district data) of
             (Some r, Some d) \<Rightarrow>
               if r = [] \<or> d = [] \<or> candidates data = [] then
                 ret store (fx @ [Say IncompleteData]) END
               else
                 (let pl = \<lparr>p_region = r, p_district = d, p_timestamp = now ev,
                            p_sender = sender ev, p_votes = candidates data\<rparr>;
                      result = send_to_google_sheet (sheet_response ev)
                  in if success result then
                       ret (store(uid := None))
                           (fx @ [Say Submitting, CallSheet pl,
                                  Say (ResultsSubmitted d (candidates data))]) END
                     else
                       ret (store(uid := None))
                           (fx @ [Say Submitting, CallSheet pl,
                                  Say (SubmitFailed (case message_text result of
                                                       None \<Rightarrow> ''Unknown error''
                                                     | Some m \<Rightarrow> m))]) END)
           | _ \<Rightarrow> ret store (fx @ [Say IncompleteData]) END))"

definition select_district_handler :: "env \<Rightarrow> store \<Rightarrow> user_id \<Rightarrow> string \<Rightarrow> outcome" where
  "select_district_handler ev store uid data =
     (if startswith ''district_'' data then
        (let d = remove_all ''district_'' data in
         case store uid of
           None \<Rightarrow> raise store [] KeyError
         | Some sess \<Rightarrow>
             (let store' = store(uid \<mapsto> sess\<lparr>district := Some d\<rparr>);
                  submitted_districts = get_submitted_districts (districts_response ev)
              in if lower d \<in> set submitted_districts then
                   ret store' [CallSubmittedDistricts, Say (AskOverride d)] (Some CONFIRM_OVERRIDE)
                 else
                   submit_data ev store' uid [CallSubmittedDistricts, Say (DistrictSelected d)]))
      else if data = ''back_to_regions'' then ret store [Say SelectRegionAgain] (Some SELECT_REGION)
      else if data = ''cancel'' then ret (store(uid := None)) [Say Cancelled] END
      else
        (case store uid of
           None \<Rightarrow> raise store [] KeyError
         | Some sess \<Rightarrow>
             ret store
               [CallSubmittedDistricts,
                Say (SelectADistrict (region sess) (get_submitted_districts (districts_response ev)))]
               (Some SELECT_DISTRICT)))"

definition confirm_override_handler :: "env \<Rightarrow> store \<Rightarrow> user_id \<Rightarrow> string \<Rightarrow> outcome" where
  "confirm_override_handler ev store uid data =
     (if data = ''override_yes'' then submit_data ev store uid [Say Overriding]
      else if data = ''override_no'' then
        (case store uid of
           None \<Rightarrow> raise store [CallSubmittedDistricts] KeyError
         | Some sess \<Rightarrow>
             ret store
               [CallSubmittedDistricts,
                Say (ChooseAnotherDistrict (region sess)
                       (get_submitted_districts (districts_response ev)))]
               (Some SELECT_DISTRICT))
      else ret store [Say ChooseAnOption] (Some CONFIRM_OVERRIDE))"

definition cancel_handler :: "store \<Rightarrow> user_id \<Rightarrow> outcome" where
  "cancel_handler store uid = ret (store(uid := None)) [Say CancelledByCommand] END"

definition fallback_handler :: "store \<Rightarrow> user_id \<Rightarrow> outcome" where
  "fallback_handler store uid = ret store [Say NotUnderstood] END"

section \<open>The conversation\<close>

text \<open>
  The events a user sends: a command, a text that is no command, a photo, or the press of
  a menu button, which carries the button's token.
\<close>

datatype event = Command string | Text string | Photo "string list" | Callback string

text \<open>
  The handlers of each state, as \<open>main\<close> registers them. \<open>None\<close>: the state has no
  handler for the event.
\<close>

fun state_handler :: "env \<Rightarrow> state \<Rightarrow> store \<Rightarrow> user_id \<Rightarrow> event \<Rightarrow> outcome option" where
  "state_handler ev CHOOSE_INPUT_MODE st u (Callback d) = Some (choose_input_mode_handler st u d)"
| "state_handler ev WAIT_FOR_IMAGE st u (Photo p) = Some (receive_photo_handler ev st u p)"
| "state_handler ev WAIT_FOR_TEXT st u (Text t) = Some (receive_text_handler st u t)"
| "state_handler ev EDIT_MENU st u (Callback d) = Some (edit_menu_handler st u d)"
| "state_handler ev BULK_EDIT_ALL st u (Text t) = Some (bulk_edit_all_handler st u t)"
| "state_handler ev EDIT_SINGLE_CANDIDATE st u (Callback d) = Some (edit_single_candidate_handler st u d)"
| "state_handler ev EDIT_SINGLE_CANDIDATE st u (Text t) = Some (receive_single_candidate_vote st u t)"
| "state_handler ev ADD_CANDIDATE_NAME st u (Text t) = Some (add_candidate_name_handler st u t)"
| "state_handler ev REMOVE_CANDIDATE_NAME st u (Callback d) = Some (remove_candidate_name_handler st u d)"
| "state_handler ev SELECT_REGION st u (Callback d) = Some (select_region_handler ev st u d)"
| "state_handler ev SELECT_DISTRICT st u (Callback d) = Some (select_district_handler ev st u d)"
| "state_handler ev CONFIRM_OVERRIDE st u (Callback d) = Some (confirm_override_handler ev st u d)"
| "state_handler ev s st u e = None"

text \<open>
  The conversation handler in a state: the entry point \<open>/start\<close> first (\<open>allow_reentry\<close>),
  then the handlers of the state, then the fallbacks: \<open>/cancel\<close>, and any other command.
  \<open>None\<close>: the event is not handled, and the conversation stays where it is.
\<close>

definition handle :: "env \<Rightarrow> state \<Rightarrow> store \<Rightarrow> user_id \<Rightarrow> event \<Rightarrow> outcome option" where
  "handle ev s st u e =
     (if e = Command ''start'' then Some (start st u)
      else
        (case state_handler ev s st u e of
           Some out \<Rightarrow> Some out
         | None \<Rightarrow>
             (case e of
                Command c \<Rightarrow> if c = ''cancel'' then Some (cancel_handler st u)
                             else Some (fallback_handler st u)
              | _ \<Rightarrow> None)))"

text \<open>
  The menu tokens the handler of a state tells apart; every other token reaches its last
  \<open>else\<close> branch. The states that take messages only have no handler for a token.
\<close>

fun recognised :: "state \<Rightarrow> string \<Rightarrow> bool" where
  "recognised CHOOSE_INPUT_MODE d = (d = ''mode_image'' \<or> d = ''mode_text'' \<or> d = ''cancel'')"
| "recognised EDIT_MENU d =
     (d = ''bulk_edit'' \<or> d = ''edit_individual'' \<or> d = ''add_candidate'' \<or> d = ''remove_candidate''
      \<or> d = ''submit_votes'' \<or> d = ''back_edit_menu'' \<or> d = ''cancel'')"
| "recognised EDIT_SINGLE_CANDIDATE d =
     (startswith ''edit_'' d \<or> d = ''back_edit_menu'' \<or> d = ''cancel'')"
| "recognised REMOVE_CANDIDATE_NAME d =
     (startswith ''remove_'' d \<or> d = ''back_edit_menu'' \<or> d = ''cancel'')"
| "recognised SELECT_REGION d = (startswith ''region_'' d \<or> d = ''cancel'')"
| "recognised SELECT_DISTRICT d =
     (startswith ''district_'' d \<or> d = ''back_to_regions'' \<or> d = ''cancel'')"
| "recognised CONFIRM_OVERRIDE d = (d = ''override_yes'' \<or> d = ''override_no'')"
| "recognised s d = False"

section \<open>Sample inputs\<close>

text \<open>An environment in which every external call fails, and the store after one \<open>/start\<close>.\<close>

definition offline :: env where
  "offline = \<lparr>ocr_response = RequestException ''timeout'',
              districts_response = RequestException ''timeout'',
              sheet_response = RequestException ''timeout'',
              now = ''2025-09-16 18:00:00'', sender = ''Agent''\<rparr>"

definition fresh :: store where
  "fresh = sessions (start Map.empty 7)"

text \<open>
  An environment in which the sheet answers without the field \<open>success\<close> and without a
  message.
\<close>

definition refusing :: env where
  "refusing = \<lparr>ocr_response = Json [], districts_response = Json [],
               sheet_response = Json \<lparr>success = False, message_text = None\<rparr>,
               now = ''2025-09-16 18:00:00'', sender = ''Agent''\<rparr>"

text \<open>
  The store after the user removed every candidate and chose a region, and the store of a
  user who chose a region and a district for a tally of one entry.
\<close>

definition emptied :: store where
  "emptied = fresh(7 \<mapsto> \<lparr>candidates = [], region = Some ''Central'', district = None,
                           votes_confirmed = False, candidate_to_edit = None\<rparr>)"

definition located :: store where
  "located = fresh(7 \<mapsto> \<lparr>candidates = [(''Banda'', 10)], region = Some ''Central'',
                           district = Some ''Dowa'', votes_confirmed = False,
                           candidate_to_edit = None\<rparr>)"

text \<open>The store of a user who has chosen the candidate to edit.\<close>

definition editing :: store where
  "editing = fresh(7 \<mapsto> \<lparr>candidates = [(''Banda'', 10)], region = None, district = None,
                           votes_confirmed = False, candidate_to_edit = Some ''Banda''\<rparr>)"

text \<open>
  Scenario A of the specification, and a text in which two lines resolve to one candidate.
\<close>

definition scenario_a :: string where
  "scenario_a = ''Chakwera: 12,345'' @ [CHR 0x0A] @ ''Mutharika 9000'' @ [CHR 0x0A] @ ''???''"

definition duplicate_lines :: string where
  "duplicate_lines = ''Banda: 10'' @ [CHR 0x0A] @ ''Bandaa 20'' @ [CHR 0x0A] @ ''Dube 5''"

text \<open>
  A line whose count is written with 4301 digits, the same line with 4300, and a text of
  two lines that resolve to one candidate followed by the line of 4301 digits.
\<close>

definition oversize_line :: string where
  "oversize_line = ''Dube: '' @ replicate 4301 (CHR ''0'')"

definition largest_line :: string where
  "largest_line = ''Dube: '' @ replicate 4300 (CHR ''0'')"

definition oversize_after_duplicates :: string where
  "oversize_after_duplicates =
     ''Banda: 10'' @ [CHR 0x0A] @ ''Bandaa 20'' @ [CHR 0x0A] @ oversize_line"

section \<open>Edit distance: properties\<close>

text \<open>The rows computed by \<open>distance\<close> hold the values of the recurrence.\<close>

lemma lev_Nil2: "lev xs [] = length xs"
  by (cases xs) simp_all

lemma lev_suffixes_Cons: "lev_suffixes xs ys = lev xs ys # tl (lev_suffixes xs ys)"
  by (cases ys) simp_all

lemma lev_rows_Nil: "rev [0..<Suc (length ys)] = lev_suffixes [] ys"
  by (induction ys) simp_all

lemma lev_row_suffixes: "lev_row x ys (lev_suffixes xs ys) = lev_suffixes (x # xs) ys"
proof (induction ys)
  case Nil
  show ?case by (simp add: lev_Nil2)
next
  case (Cons y ys)
  obtain t where t: "lev_suffixes xs ys = lev xs ys # t"
    using lev_suffixes_Cons [of xs ys] by blast
  obtain t' where t': "lev_suffixes (x # xs) ys = lev (x # xs) ys # t'"
    using lev_suffixes_Cons [of "x # xs" ys] by blast
  have "lev_row x (y # ys) (lev_suffixes xs (y # ys)) =
        lev_cell x y (lev xs (y # ys)) (lev xs ys) (lev_row x ys (lev_suffixes xs ys))"
    by (simp add: t)
  also have "\<dots> = lev_cell x y (lev xs (y # ys)) (lev xs ys) (lev_suffixes (x # xs) ys)"
    by (simp only: Cons.IH)
  also have "\<dots> = lev_suffixes (x # xs) (y # ys)"
    by (simp add: t')
  finally show ?case .
qed

lemma lev_rows_suffixes: "lev_rows xs ys = lev_suffixes xs ys"
  by (induction xs) (simp_all add: lev_rows_Nil lev_row_suffixes del: upt_Suc)

lemma distance_lev: "distance xs ys = lev xs ys"
  unfolding distance_def lev_rows_suffixes by (cases ys) simp_all

section \<open>Extraction: properties\<close>

text \<open>
  The invariant of the loop over the candidates: either no candidate was nearer than the
  distance it started with, or the result is the first candidate at the least distance.
\<close>

lemma closest_first_min:
  fixes raw :: string
  defines "d \<equiv> dist_to raw"
  shows "(closest raw cs (b, m) = (b, m) \<and> (\<forall>c\<in>set cs. m \<le> enat (d c)))
       \<or> (\<exists>i<length cs. closest raw cs (b, m) = (Some (cs ! i), enat (d (cs ! i)))
            \<and> enat (d (cs ! i)) < m
            \<and> (\<forall>c\<in>set cs. d (cs ! i) \<le> d c)
            \<and> (\<forall>j<i. d (cs ! i) < d (cs ! j)))"
proof (induction cs arbitrary: b m)
  case Nil
  show ?case by simp
next
  case (Cons x xs)
  show ?case
  proof (cases "enat (d x) < m")
    case True
    then have step: "closest raw (x # xs) (b, m) = closest raw xs (Some x, enat (d x))"
      by (simp add: d_def)
    from Cons.IH [of "Some x" "enat (d x)"] show ?thesis
    proof (elim disjE exE conjE)
      assume "closest raw xs (Some x, enat (d x)) = (Some x, enat (d x))"
         and "\<forall>c\<in>set xs. enat (d x) \<le> enat (d c)"
      with True step have "0 < length (x # xs) \<and> closest raw (x # xs) (b, m) = (Some ((x # xs) ! 0), enat (d ((x # xs) ! 0)))
            \<and> enat (d ((x # xs) ! 0)) < m
            \<and> (\<forall>c\<in>set (x # xs). d ((x # xs) ! 0) \<le> d c)
            \<and> (\<forall>j<0. d ((x # xs) ! 0) < d ((x # xs) ! j))"
        by simp
      then show ?thesis by blast
    next
      fix i
      assume i: "i < length xs"
        and r: "closest raw xs (Some x, enat (d x)) = (Some (xs ! i), enat (d (xs ! i)))"
        and lt: "enat (d (xs ! i)) < enat (d x)"
        and mn: "\<forall>c\<in>set xs. d (xs ! i) \<le> d c"
        and fs: "\<forall>j<i. d (xs ! i) < d (xs ! j)"
      have "\<forall>j<Suc i. d (xs ! i) < d ((x # xs) ! j)"
        using fs lt by (auto simp: nth_Cons split: nat.splits)
      moreover have "enat (d (xs ! i)) < m" using lt True by (rule less_trans)
      moreover note i r lt mn step
      ultimately have "Suc i < length (x # xs) \<and> closest raw (x # xs) (b, m) = (Some ((x # xs) ! Suc i), enat (d ((x # xs) ! Suc i)))
            \<and> enat (d ((x # xs) ! Suc i)) < m
            \<and> (\<forall>c\<in>set (x # xs). d ((x # xs) ! Suc i) \<le> d c)
            \<and> (\<forall>j<Suc i. d ((x # xs) ! Suc i) < d ((x # xs) ! j))"
        by auto
      then show ?thesis by blast
    qed
  next
    case False
    then have step: "closest raw (x # xs) (b, m) = closest raw xs (b, m)"
      by (simp add: d_def)
    from False have mx: "m \<le> enat (d x)" by simp
    from Cons.IH [of b m] show ?thesis
    proof (elim disjE exE conjE)
      assume "closest raw xs (b, m) = (b, m)" and "\<forall>c\<in>set xs. m \<le> enat (d c)"
      with step mx show ?thesis by simp
    next
      fix i
      assume i: "i < length xs"
        and r: "closest raw xs (b, m) = (Some (xs ! i), enat (d (xs ! i)))"
        and lt: "enat (d (xs ! i)) < m"
        and mn: "\<forall>c\<in>set xs. d (xs ! i) \<le> d c"
        and fs: "\<forall>j<i. d (xs ! i) < d (xs ! j)"
      from lt mx have lx: "d (xs ! i) < d x"
        by (metis enat_ord_simps(2) less_le_trans)
      have "\<forall>j<Suc i. d (xs ! i) < d ((x # xs) ! j)"
        using fs lx by (auto simp: nth_Cons split: nat.splits)
      with i r lt mn step lx
      have "Suc i < length (x # xs) \<and> closest raw (x # xs) (b, m) = (Some ((x # xs) ! Suc i), enat (d ((x # xs) ! Suc i)))
            \<and> enat (d ((x # xs) ! Suc i)) < m
            \<and> (\<forall>c\<in>set (x # xs). d ((x # xs) ! Suc i) \<le> d c)
            \<and> (\<forall>j<Suc i. d ((x # xs) ! Suc i) < d ((x # xs) ! j))"
        by auto
      then show ?thesis by blast
    qed
  qed
qed

lemma closest_start:
  assumes "cs \<noteq> []"
  shows "\<exists>i<length cs. closest raw cs (None, \<infinity>) = (Some (cs ! i), enat (dist_to raw (cs ! i)))
          \<and> (\<forall>c\<in>set cs. dist_to raw (cs ! i) \<le> dist_to raw c)
          \<and> (\<forall>j<i. dist_to raw (cs ! i) < dist_to raw (cs ! j))"
proof -
  from assms obtain c where "c \<in> set cs" by (cases cs) auto
  then have "\<not> (\<forall>c\<in>set cs. \<infinity> \<le> enat (dist_to raw c))" by auto
  with closest_first_min [of raw cs None \<infinity>] show ?thesis by blast
qed

lemma first_min_arg_min_list:
  fixes f :: "'a \<Rightarrow> nat"
  assumes "i < length cs" and "\<forall>c\<in>set cs. f (cs ! i) \<le> f c" and "\<forall>j<i. f (cs ! i) < f (cs ! j)"
  shows "arg_min_list f cs = cs ! i"
  using assms
proof (induction f cs arbitrary: i rule: arg_min_list.induct)
  case (1 f x)
  then show ?case by simp
next
  case (2 f x y zs)
  show ?case
  proof (cases i)
    case 0
    with 2 have "f x \<le> f (arg_min_list f (y # zs))"
      by (metis arg_min_list_in list.distinct(1) list.set_intros(2) nth_Cons_0)
    with 0 show ?thesis by (simp add: Let_def)
  next
    case (Suc k)
    with 2 have k: "k < length (y # zs)" by simp
    have a: "\<forall>c\<in>set (y # zs). f ((y # zs) ! k) \<le> f c" using 2(3) Suc by simp
    have b: "\<forall>j<k. f ((y # zs) ! k) < f ((y # zs) ! j)"
    proof (intro allI impI)
      fix j assume "j < k"
      then have "Suc j < i" using Suc by simp
      from 2(4) [rule_format, OF this] show "f ((y # zs) ! k) < f ((y # zs) ! j)"
        using Suc by simp
    qed
    have IH: "arg_min_list f (y # zs) = (y # zs) ! k" by (rule 2(1) [OF k a b])
    have "f ((x # y # zs) ! i) < f ((x # y # zs) ! 0)" using 2(4) Suc by blast
    then have "\<not> f x \<le> f ((y # zs) ! k)" using Suc by simp
    with IH Suc show ?thesis by (simp add: Let_def)
  qed
next
  case (3 f)
  then show ?case by simp
qed

text \<open>The pattern: the classes are disjoint where it matters, and the first match is a match.\<close>

lemma name_sep_space: "name_char c \<Longrightarrow> sep_char c \<Longrightarrow> is_space c"
  by (auto simp: name_char_def sep_char_def is_letter_def Let_def)

lemma name_not_vote: "name_char c \<Longrightarrow> \<not> vote_char c"
  by (auto simp: name_char_def vote_char_def is_letter_def is_decimal_def is_space_def Let_def)

lemma sep_not_vote: "sep_char c \<Longrightarrow> \<not> vote_char c"
  by (auto simp: sep_char_def vote_char_def is_decimal_def is_space_def Let_def)

lemma decimal_not_space: "is_decimal c \<Longrightarrow> \<not> is_space c"
  by (auto simp: is_decimal_def is_space_def Let_def)

lemma decimal_isdigit: "is_decimal c \<Longrightarrow> isdigit_char c"
  by (auto simp: is_decimal_def isdigit_char_def Let_def)

lemma plus_splits_iff:
  "(a, b) \<in> set (plus_splits P s) \<longleftrightarrow> a \<noteq> [] \<and> s = a @ b \<and> list_all P a"
proof (induction s arbitrary: a b)
  case Nil
  show ?case by simp
next
  case (Cons c cs)
  show ?case
  proof (cases "P c")
    case False
    then show ?thesis by (cases a) auto
  next
    case True
    show ?thesis
    proof (cases a)
      case Nil
      with True show ?thesis by auto
    next
      case (Cons x a')
      show ?thesis
      proof (cases "a' = []")
        case True
        with \<open>P c\<close> Cons Cons.IH [of "[]" b] show ?thesis by auto
      next
        case False
        with \<open>P c\<close> Cons Cons.IH [of a' b] show ?thesis by auto
      qed
    qed
  qed
qed

lemma plus_splits_Nil_iff: "plus_splits P s = [] \<longleftrightarrow> s = [] \<or> \<not> P (hd s)"
  by (cases s) auto

lemma hd_plus_splits:
  "plus_splits P s \<noteq> [] \<Longrightarrow> hd (plus_splits P s) = (takeWhile P s, dropWhile P s)"
proof (induction s)
  case Nil
  then show ?case by simp
next
  case (Cons c cs)
  then have c: "P c" by (auto split: if_splits)
  show ?case
  proof (cases "plus_splits P cs = []")
    case True
    then have "cs = [] \<or> \<not> P (hd cs)" by (simp add: plus_splits_Nil_iff)
    then have "takeWhile P cs = [] \<and> dropWhile P cs = cs" by (cases cs) auto
    with c True show ?thesis by simp
  next
    case False
    with Cons.IH have "hd (plus_splits P cs) = (takeWhile P cs, dropWhile P cs)" by simp
    with c False show ?thesis by (simp add: hd_append hd_map)
  qed
qed

lemma hd_concat_property:
  "concat xss \<noteq> [] \<Longrightarrow> (\<And>xs. xs \<in> set xss \<Longrightarrow> xs \<noteq> [] \<Longrightarrow> Q (hd xs)) \<Longrightarrow> Q (hd (concat xss))"
  by (induction xss) (auto simp: hd_append)

lemma hd_vote_matches:
  assumes "vote_matches s \<noteq> []"
  shows "match_at s (hd (vote_matches s))"
  unfolding vote_matches_def
proof (rule hd_concat_property)
  show "concat (map (\<lambda>(g1, r1). concat (map (\<lambda>(sp, r2). map (\<lambda>(g2, r3). (g1, g2)) (plus_splits vote_char r2))
          (plus_splits sep_char r1))) (plus_splits name_char s)) \<noteq> []"
    using assms by (simp add: vote_matches_def)
next
  fix xs
  assume "xs \<in> set (map (\<lambda>(g1, r1). concat (map (\<lambda>(sp, r2). map (\<lambda>(g2, r3). (g1, g2)) (plus_splits vote_char r2))
          (plus_splits sep_char r1))) (plus_splits name_char s))" and ne: "xs \<noteq> []"
  then obtain g1 r1 where g1: "(g1, r1) \<in> set (plus_splits name_char s)"
    and xs: "xs = concat (map (\<lambda>(sp, r2). map (\<lambda>(g2, r3). (g1, g2)) (plus_splits vote_char r2))
          (plus_splits sep_char r1))"
    by auto
  show "match_at s (hd xs)"
    unfolding xs
  proof (rule hd_concat_property)
    show "concat (map (\<lambda>(sp, r2). map (\<lambda>(g2, r3). (g1, g2)) (plus_splits vote_char r2))
          (plus_splits sep_char r1)) \<noteq> []"
      using ne xs by simp
  next
    fix ys
    assume "ys \<in> set (map (\<lambda>(sp, r2). map (\<lambda>(g2, r3). (g1, g2)) (plus_splits vote_char r2))
          (plus_splits sep_char r1))" and ne': "ys \<noteq> []"
    then obtain sp r2 where sp: "(sp, r2) \<in> set (plus_splits sep_char r1)"
      and ys: "ys = map (\<lambda>(g2, r3). (g1, g2)) (plus_splits vote_char r2)"
      by auto
    from ne' ys have ps: "plus_splits vote_char r2 \<noteq> []" by simp
    then have h: "hd ys = (g1, takeWhile vote_char r2)"
      by (simp add: ys hd_map hd_plus_splits)
    from ps have t: "takeWhile vote_char r2 \<noteq> []"
      by (cases r2) (auto split: if_splits)
    have d: "dropWhile vote_char r2 = [] \<or> \<not> vote_char (hd (dropWhile vote_char r2))"
      using hd_dropWhile [of vote_char r2] by blast
    from g1 have 1: "g1 \<noteq> []" "s = g1 @ r1" "list_all name_char g1"
      by (simp_all add: plus_splits_iff)
    from sp have 2: "sp \<noteq> []" "r1 = sp @ r2" "list_all sep_char sp"
      by (simp_all add: plus_splits_iff)
    have 3: "list_all vote_char (takeWhile vote_char r2)"
      by (simp add: list_all_iff) (meson set_takeWhileD)
    have "s = g1 @ sp @ takeWhile vote_char r2 @ dropWhile vote_char r2"
      using 1 2 by simp
    with 1 2 3 t d show "match_at s (hd ys)"
      unfolding h match_at_def by (intro exI [of _ sp] exI [of _ "dropWhile vote_char r2"]) simp
  qed
qed

lemma vote_matches_mem:
  assumes "s = n @ p @ d @ r" "n \<noteq> []" "list_all name_char n" "p \<noteq> []" "list_all sep_char p"
    "d \<noteq> []" "list_all vote_char d"
  shows "(n, d) \<in> set (vote_matches s)"
proof -
  have 1: "(n, p @ d @ r) \<in> set (plus_splits name_char s)"
    using assms by (simp add: plus_splits_iff)
  have 2: "(p, d @ r) \<in> set (plus_splits sep_char (p @ d @ r))"
    using assms by (simp add: plus_splits_iff)
  have 3: "(d, r) \<in> set (plus_splits vote_char (d @ r))"
    using assms by (simp add: plus_splits_iff)
  show ?thesis
    unfolding vote_matches_def using 1 2 3 by (force intro!: bexI [OF _ 1] bexI [OF _ 2])
qed

lemma vote_pattern_None_iff: "vote_pattern s = None \<longleftrightarrow> \<not> has_shape s"
proof
  assume n: "vote_pattern s = None"
  show "\<not> has_shape s"
  proof
    assume "has_shape s"
    then obtain n p d r where "s = n @ p @ d @ r" "n \<noteq> []" "list_all name_char n" "p \<noteq> []"
      "list_all sep_char p" "d \<noteq> []" "list_all vote_char d"
      unfolding has_shape_def by blast
    then have "(n, d) \<in> set (vote_matches s)" by (rule vote_matches_mem)
    with n show False by (auto simp: vote_pattern_def split: list.splits)
  qed
next
  assume h: "\<not> has_shape s"
  show "vote_pattern s = None"
  proof (rule ccontr)
    assume "vote_pattern s \<noteq> None"
    then have "vote_matches s \<noteq> []" by (auto simp: vote_pattern_def)
    from hd_vote_matches [OF this] have "has_shape s"
      unfolding match_at_def has_shape_def by blast
    with h show False by simp
  qed
qed

lemma vote_pattern_Some:
  assumes "vote_pattern s = Some (g1, g2)"
  shows "match_at s (g1, g2)"
proof -
  from assms have ne: "vote_matches s \<noteq> []" and h: "hd (vote_matches s) = (g1, g2)"
    by (auto simp: vote_pattern_def split: list.splits)
  from hd_vote_matches [OF ne] h show ?thesis by simp
qed

lemma set_strip: "set (strip s) \<subseteq> set s"
proof -
  have "set (strip s) \<subseteq> set (rev (dropWhile is_space s))"
    unfolding strip_def using set_dropWhileD by fastforce
  also have "\<dots> \<subseteq> set s" using set_dropWhileD by fastforce
  finally show ?thesis .
qed

lemma strip_trailing:
  assumes "n \<noteq> []" "\<not> is_space (hd n)" "\<not> is_space (last n)" "\<forall>c\<in>set u. is_space c"
  shows "strip (n @ u) = n"
proof -
  have 1: "dropWhile is_space (n @ u) = n @ u"
    using assms(1,2) by (cases n) simp_all
  have "dropWhile is_space (rev u @ rev n) = dropWhile is_space (rev n)"
    by (rule dropWhile_append2) (use assms(4) in simp)
  also have "\<dots> = rev n"
    using assms(1,3) by (cases "rev n") (auto simp: last_rev [symmetric] simp del: last_rev)
  finally show ?thesis unfolding strip_def 1 by simp
qed

lemma strip_no_space: "\<forall>c\<in>set s. \<not> is_space c \<Longrightarrow> strip s = s"
proof (cases "s = []")
  case True
  then show ?thesis by (simp add: strip_def)
next
  case False
  assume a: "\<forall>c\<in>set s. \<not> is_space c"
  with False have "\<not> is_space (hd s)" "\<not> is_space (last s)" by simp_all
  from strip_trailing [OF False this, of "[]"] show ?thesis by simp
qed

lemma vote_str_decimal:
  assumes "list_all vote_char g2"
  shows "list_all is_decimal (strip (filter (\<lambda>c. code c \<noteq> 44) g2))"
proof -
  have "\<forall>c\<in>set (filter (\<lambda>c. code c \<noteq> 44) g2). is_decimal c"
    using assms by (auto simp: list_all_iff vote_char_def)
  with set_strip [of "filter (\<lambda>c. code c \<noteq> 44) g2"] show ?thesis
    by (auto simp: list_all_iff)
qed

lemma py_int_decimal:
  "list_all is_decimal s \<Longrightarrow> isdigit s \<Longrightarrow> length s \<le> 4300 \<Longrightarrow> py_int s = Inr (decimal_value s)"
  by (simp add: py_int_def isdigit_def)

lemma py_int_oversize: "4300 < length s \<Longrightarrow> py_int s = Inl ValueError"
  by (simp add: py_int_def)

lemma DEFAULT_CANDIDATES_not_Nil: "DEFAULT_CANDIDATES \<noteq> []"
  by (simp add: DEFAULT_CANDIDATES_def)

lemma process_line_oversize:
  assumes vp: "vote_pattern (strip (collapse_ws line)) = Some (g1, g2)"
      and dg: "isdigit (strip (filter (\<lambda>c. code c \<noteq> 44) g2))"
      and big: "4300 < length (strip (filter (\<lambda>c. code c \<noteq> 44) g2))"
  shows "process_line matched line = Inl ValueError"
  unfolding process_line_def by (simp add: vp dg py_int_oversize [OF big])

lemma process_line_parsed:
  assumes vp: "vote_pattern (strip (collapse_ws line)) = Some (g1, g2)"
      and dg: "isdigit (strip (filter (\<lambda>c. code c \<noteq> 44) g2))"
      and lim: "length (strip (filter (\<lambda>c. code c \<noteq> 44) g2)) \<le> 4300"
  shows "\<exists>i<length DEFAULT_CANDIDATES.
           (\<forall>c\<in>set DEFAULT_CANDIDATES.
              dist_to (strip g1) (DEFAULT_CANDIDATES ! i) \<le> dist_to (strip g1) c)
         \<and> (\<forall>j<i. dist_to (strip g1) (DEFAULT_CANDIDATES ! i)
                    < dist_to (strip g1) (DEFAULT_CANDIDATES ! j))
         \<and> (\<forall>matched. process_line matched line =
               Inr (if dist_to (strip g1) (DEFAULT_CANDIDATES ! i) \<le> 2
                    then AList.update (DEFAULT_CANDIDATES ! i)
                           (decimal_value (strip (filter (\<lambda>c. code c \<noteq> 44) g2))) matched
                    else matched))"
proof -
  from vote_pattern_Some [OF vp] have "list_all vote_char g2"
    by (auto simp: match_at_def)
  then have pi: "py_int (strip (filter (\<lambda>c. code c \<noteq> 44) g2)) =
      Inr (decimal_value (strip (filter (\<lambda>c. code c \<noteq> 44) g2)))"
    using dg lim by (intro py_int_decimal vote_str_decimal)
  from closest_start [OF DEFAULT_CANDIDATES_not_Nil, of "strip g1"]
  obtain i where i: "i < length DEFAULT_CANDIDATES"
    and cl: "closest (strip g1) DEFAULT_CANDIDATES (None, \<infinity>) =
              (Some (DEFAULT_CANDIDATES ! i), enat (dist_to (strip g1) (DEFAULT_CANDIDATES ! i)))"
    and mn: "\<forall>c\<in>set DEFAULT_CANDIDATES.
              dist_to (strip g1) (DEFAULT_CANDIDATES ! i) \<le> dist_to (strip g1) c"
    and fs: "\<forall>j<i. dist_to (strip g1) (DEFAULT_CANDIDATES ! i)
                    < dist_to (strip g1) (DEFAULT_CANDIDATES ! j)"
    by blast
  have two: "(2::enat) = enat 2" by (simp add: numeral_eq_enat)
  have "\<forall>matched. process_line matched line =
               Inr (if dist_to (strip g1) (DEFAULT_CANDIDATES ! i) \<le> 2
                    then AList.update (DEFAULT_CANDIDATES ! i)
                           (decimal_value (strip (filter (\<lambda>c. code c \<noteq> 44) g2))) matched
                    else matched)"
    unfolding process_line_def by (simp add: vp dg pi cl two)
  with i mn fs show ?thesis by blast
qed

lemma process_line_cases:
  "(\<forall>m. process_line m l = Inr m)
   \<or> (\<exists>k v. \<forall>m. process_line m l = Inr (AList.update k v m))
   \<or> (\<forall>m. process_line m l = Inl ValueError)"
proof (cases "vote_pattern (strip (collapse_ws l))")
  case None
  then show ?thesis by (simp add: process_line_def)
next
  case (Some g)
  obtain g1 g2 where g: "g = (g1, g2)" by (cases g)
  show ?thesis
  proof (cases "isdigit (strip (filter (\<lambda>c. code c \<noteq> 44) g2))")
    case False
    with Some g show ?thesis by (simp add: process_line_def)
  next
    case True
    show ?thesis
    proof (cases "length (strip (filter (\<lambda>c. code c \<noteq> 44) g2)) \<le> 4300")
      case False
      then have "4300 < length (strip (filter (\<lambda>c. code c \<noteq> 44) g2))" by simp
      from process_line_oversize [OF Some [unfolded g] True this] show ?thesis by simp
    next
      case lim: True
      from process_line_parsed [OF Some [unfolded g] True lim]
      obtain i where i: "\<forall>matched. process_line matched l =
                 Inr (if dist_to (strip g1) (DEFAULT_CANDIDATES ! i) \<le> 2
                      then AList.update (DEFAULT_CANDIDATES ! i)
                             (decimal_value (strip (filter (\<lambda>c. code c \<noteq> 44) g2))) matched
                      else matched)"
        by blast
      show ?thesis
      proof (cases "dist_to (strip g1) (DEFAULT_CANDIDATES ! i) \<le> 2")
        case True
        with i have "\<forall>m. process_line m l = Inr (AList.update (DEFAULT_CANDIDATES ! i)
                             (decimal_value (strip (filter (\<lambda>c. code c \<noteq> 44) g2))) m)"
          by simp
        then show ?thesis by blast
      next
        case False
        with i show ?thesis by simp
      qed
    qed
  qed
qed

lemma process_line_from_empty:
  assumes "process_line [] l = Inr [(c, v)]"
  shows "process_line m l = Inr (AList.update c v m)"
  using process_line_cases [of l] assms by auto

lemma process_line_returns:
  assumes "process_line [] l = Inr r"
  shows "\<exists>m'. process_line m l = Inr m'"
  using process_line_cases [of l] assms by auto

lemma process_line_untouched:
  assumes "\<forall>v. process_line [] l \<noteq> Inr [(c, v)]" and "process_line [] l = Inr r"
  shows "\<exists>m'. process_line m l = Inr m' \<and> map_of m' c = map_of m c"
  using process_line_cases [of l]
proof (elim disjE)
  assume "\<forall>m. process_line m l = Inr m"
  then show ?thesis by simp
next
  assume "\<exists>k v. \<forall>m. process_line m l = Inr (AList.update k v m)"
  then obtain k v where kv: "\<And>m. process_line m l = Inr (AList.update k v m)" by blast
  from kv [of "[]"] assms(1) have "k \<noteq> c" by auto
  with kv [of m] show ?thesis by (simp add: update_conv')
next
  assume "\<forall>m. process_line m l = Inl ValueError"
  with assms(2) show ?thesis by simp
qed

text \<open>A line of at most 4300 digits is processed without an error.\<close>

lemma length_filter_dropWhile:
  "length (filter P (dropWhile Q xs)) \<le> length (filter P xs)"
proof -
  have "filter P xs = filter P (takeWhile Q xs) @ filter P (dropWhile Q xs)"
    by (metis filter_append takeWhile_dropWhile_id)
  then show ?thesis by simp
qed

lemma length_filter_strip: "length (filter P (strip s)) \<le> length (filter P s)"
proof -
  have "length (filter P (strip s)) = length (filter P (dropWhile is_space (rev (dropWhile is_space s))))"
    unfolding strip_def by (simp add: rev_filter [symmetric])
  also have "\<dots> \<le> length (filter P (rev (dropWhile is_space s)))"
    by (rule length_filter_dropWhile)
  also have "\<dots> = length (filter P (dropWhile is_space s))"
    by (simp add: rev_filter [symmetric])
  also have "\<dots> \<le> length (filter P s)" by (rule length_filter_dropWhile)
  finally show ?thesis .
qed

lemma length_strip: "length (strip s) \<le> length s"
  using length_filter_strip [of "\<lambda>c. True" s] by simp

lemma length_filter_collapse_ws:
  "length (filter is_decimal (collapse_ws s)) \<le> length (filter is_decimal s)"
proof (induction s rule: collapse_ws.induct)
  case 1
  show ?case by simp
next
  case (2 c cs)
  show ?case
  proof (cases "is_space c")
    case True
    have sp: "\<not> is_decimal (CHR '' '')" by code_simp
    have "length (filter is_decimal (collapse_ws (dropWhile is_space cs)))
            \<le> length (filter is_decimal (dropWhile is_space cs))"
      using 2(1) [OF True] .
    also have "\<dots> \<le> length (filter is_decimal cs)" by (rule length_filter_dropWhile)
    finally show ?thesis using True sp by simp
  next
    case False
    with 2(2) show ?thesis by simp
  qed
qed

lemma numeric_part_digits:
  assumes "list_all vote_char g2"
  shows "strip (filter (\<lambda>c. code c \<noteq> 44) g2) = filter is_decimal g2"
proof -
  have "filter (\<lambda>c. code c \<noteq> 44) g2 = filter is_decimal g2"
    using assms by (intro filter_cong) (auto simp: list_all_iff vote_char_def is_decimal_def Let_def)
  moreover have "\<forall>c\<in>set (filter is_decimal g2). \<not> is_space c"
    by (auto dest: decimal_not_space)
  ultimately show ?thesis by (simp add: strip_no_space)
qed

lemma line_within_limit:
  assumes "length (filter is_decimal l) \<le> 4300"
  shows "\<exists>r. process_line [] l = Inr r"
proof (cases "vote_pattern (strip (collapse_ws l))")
  case None
  then show ?thesis by (simp add: process_line_def)
next
  case (Some g)
  obtain g1 g2 where g: "g = (g1, g2)" by (cases g)
  let ?c = "strip (collapse_ws l)"
  from vote_pattern_Some [OF Some [unfolded g]] obtain sp r3 where
    m: "?c = g1 @ sp @ g2 @ r3" "list_all vote_char g2"
    unfolding match_at_def by auto
  have "length (filter is_decimal g2) \<le> length (filter is_decimal ?c)"
    unfolding m(1) by simp
  also have "\<dots> \<le> length (filter is_decimal (collapse_ws l))" by (rule length_filter_strip)
  also have "\<dots> \<le> length (filter is_decimal l)" by (rule length_filter_collapse_ws)
  finally have lim: "length (strip (filter (\<lambda>c. code c \<noteq> 44) g2)) \<le> 4300"
    using assms unfolding numeric_part_digits [OF m(2)] by simp
  show ?thesis
  proof (cases "isdigit (strip (filter (\<lambda>c. code c \<noteq> 44) g2))")
    case True
    from process_line_parsed [OF Some [unfolded g] True lim] show ?thesis by blast
  next
    case False
    then show ?thesis by (simp add: process_line_def Some g Let_def)
  qed
qed

lemma extract_loop_append:
  "extract_loop m (xs @ ys) =
     (case extract_loop m xs of Inl e \<Rightarrow> Inl e | Inr m' \<Rightarrow> extract_loop m' ys)"
  by (induction xs arbitrary: m) (auto split: sum.splits)

lemma extract_loop_returns:
  assumes "\<forall>l\<in>set ls. \<exists>r. process_line [] l = Inr r"
  shows "\<exists>r. extract_loop m ls = Inr r"
  using assms
proof (induction ls arbitrary: m)
  case Nil
  show ?case by simp
next
  case (Cons l ls)
  then obtain r where "process_line [] l = Inr r" by auto
  from process_line_returns [OF this, of m] obtain m' where "process_line m l = Inr m'" by blast
  with Cons.IH [of m'] Cons.prems show ?case by simp
qed

lemma extract_loop_untouched:
  assumes "\<forall>l\<in>set ls. \<forall>v. process_line [] l \<noteq> Inr [(c, v)]"
      and "\<forall>l\<in>set ls. \<exists>r. process_line [] l = Inr r"
  shows "\<exists>r. extract_loop m ls = Inr r \<and> map_of r c = map_of m c"
  using assms
proof (induction ls arbitrary: m)
  case Nil
  show ?case by simp
next
  case (Cons l ls)
  from Cons.prems have a: "\<forall>v. process_line [] l \<noteq> Inr [(c, v)]" by simp
  from Cons.prems obtain r0 where b: "process_line [] l = Inr r0" by auto
  from process_line_untouched [OF a b, of m]
  obtain m' where m': "process_line m l = Inr m'" "map_of m' c = map_of m c" by blast
  from Cons.prems have "\<forall>l\<in>set ls. \<forall>v. process_line [] l \<noteq> Inr [(c, v)]"
    and "\<forall>l\<in>set ls. \<exists>r. process_line [] l = Inr r" by simp_all
  from Cons.IH [OF this, of m'] m' show ?case by simp
qed

lemma later_line:
  assumes "text_lines text = pre @ l1 # mid @ l2 # post"
      and "process_line [] l1 = Inr [(c, v1)]"
      and "process_line [] l2 = Inr [(c, v2)]"
      and "\<forall>l\<in>set post. \<forall>v. process_line [] l \<noteq> Inr [(c, v)]"
      and "\<forall>l\<in>set (text_lines text). length (filter is_decimal l) \<le> 4300"
  shows "\<exists>r. extract_votes text = Inr r \<and> map_of r c = Some v2"
proof -
  have ok: "\<forall>l\<in>set (text_lines text). \<exists>r. process_line [] l = Inr r"
    using assms(5) line_within_limit by blast
  then have "\<forall>l\<in>set (pre @ l1 # mid). \<exists>r. process_line [] l = Inr r"
    unfolding assms(1) by auto
  from extract_loop_returns [OF this]
  obtain m1 where m1: "extract_loop [] (pre @ l1 # mid) = Inr m1" by blast
  have l2: "process_line m1 l2 = Inr (AList.update c v2 m1)"
    using assms(3) by (rule process_line_from_empty)
  from ok have "\<forall>l\<in>set post. \<exists>r. process_line [] l = Inr r"
    unfolding assms(1) by simp
  from extract_loop_untouched [OF assms(4) this, of "AList.update c v2 m1"]
  obtain r where r: "extract_loop (AList.update c v2 m1) post = Inr r"
    "map_of r c = map_of (AList.update c v2 m1) c" by blast
  have "extract_loop [] ((pre @ l1 # mid) @ l2 # post) = extract_loop m1 (l2 # post)"
    unfolding extract_loop_append [of "[]" "pre @ l1 # mid"] m1 by simp
  also have "\<dots> = Inr r" by (simp add: l2 r)
  finally have "extract_votes text = Inr r"
    unfolding extract_votes_def assms(1) by simp
  with r show ?thesis by (simp add: update_conv')
qed

lemma split_at_first:
  assumes "xs @ ys = xs' @ ys'"
    and "\<forall>c\<in>set xs. \<not> P c" and "\<forall>c\<in>set xs'. \<not> P c"
    and "ys \<noteq> []" and "P (hd ys)" and "ys' \<noteq> []" and "P (hd ys')"
  shows "xs = xs' \<and> ys = ys'"
proof -
  have a: "takeWhile (\<lambda>c. \<not> P c) (xs @ ys) = xs"
    using assms(2,4,5) by (cases ys) (simp_all add: takeWhile_append2)
  have b: "takeWhile (\<lambda>c. \<not> P c) (xs' @ ys') = xs'"
    using assms(3,6,7) by (cases ys') (simp_all add: takeWhile_append2)
  from a b assms(1) have "xs = xs'" by simp
  with assms(1) show ?thesis by simp
qed

lemma vote_pattern_well_formed:
  assumes ok: "well_formed n p d"
  shows "\<exists>g1. vote_pattern (n @ p @ d) = Some (g1, d) \<and> strip g1 = n"
proof -
  let ?s = "n @ p @ d"
  from ok have n: "n \<noteq> []" "list_all name_char n" "\<not> is_space (hd n)" "\<not> is_space (last n)"
    and p: "p \<noteq> []" "list_all sep_char p"
    and d: "list_all vote_char d" "list_ex is_decimal d"
    by (simp_all add: well_formed_def)
  from d(2) have dne: "d \<noteq> []" by auto
  from d(1) dne have dhd: "vote_char (hd d)" by (cases d) simp_all
  have "(n, d) \<in> set (vote_matches ?s)"
    by (rule vote_matches_mem [where p = p and r = "[]"]) (simp_all add: n p d dne)
  then obtain g1 g2 where vp: "vote_pattern ?s = Some (g1, g2)"
    by (cases "vote_matches ?s") (auto simp: vote_pattern_def)
  from vote_pattern_Some [OF vp] obtain sp r3 where
    m: "?s = g1 @ sp @ g2 @ r3" "g1 \<noteq> []" "list_all name_char g1" "sp \<noteq> []" "list_all sep_char sp"
       "g2 \<noteq> []" "list_all vote_char g2" "r3 = [] \<or> \<not> vote_char (hd r3)"
    unfolding match_at_def by auto
  have "(n @ p) @ d = (g1 @ sp) @ (g2 @ r3)" using m(1) by simp
  moreover have "\<forall>c\<in>set (n @ p). \<not> vote_char c"
    using n(2) p(2) by (auto simp: list_all_iff name_not_vote sep_not_vote)
  moreover have "\<forall>c\<in>set (g1 @ sp). \<not> vote_char c"
    using m(3,5) by (auto simp: list_all_iff name_not_vote sep_not_vote)
  moreover have "vote_char (hd (g2 @ r3))" using m(6,7) by (cases g2) simp_all
  ultimately have eq: "n @ p = g1 @ sp" "d = g2 @ r3"
    using split_at_first [of "n @ p" d "g1 @ sp" "g2 @ r3" vote_char] dne dhd m(6) by simp_all
  have "r3 = []"
  proof (rule ccontr)
    assume "r3 \<noteq> []"
    then have "hd r3 \<in> set d" using eq(2) by simp
    with d(1) have "vote_char (hd r3)" by (simp add: list_all_iff)
    with m(8) \<open>r3 \<noteq> []\<close> show False by simp
  qed
  with eq(2) have g2: "g2 = d" by simp
  have g1: "strip g1 = n"
  proof -
    from eq(1) obtain u where "(n = g1 @ u \<and> u @ p = sp) \<or> (n @ u = g1 \<and> p = u @ sp)"
      by (auto simp: append_eq_append_conv2)
    then show ?thesis
    proof
      assume a: "n = g1 @ u \<and> u @ p = sp"
      have "\<forall>c\<in>set u. is_space c"
        using a n(2) m(5) by (auto simp: list_all_iff intro: name_sep_space)
      have "u = []"
      proof (rule ccontr)
        assume "u \<noteq> []"
        then have "last n = last u" using a by simp
        with \<open>u \<noteq> []\<close> \<open>\<forall>c\<in>set u. is_space c\<close> n(4) show False by simp
      qed
      with a have "g1 = n" by simp
      with strip_trailing [OF n(1,3,4), of "[]"] show ?thesis by simp
    next
      assume a: "n @ u = g1 \<and> p = u @ sp"
      have "\<forall>c\<in>set u. is_space c"
        using a m(3) p(2) by (auto simp: list_all_iff intro: name_sep_space)
      from strip_trailing [OF n(1,3,4) this] a show ?thesis by simp
    qed
  qed
  from vp g2 g1 show ?thesis by simp
qed

lemma well_formed_digits:
  assumes "well_formed n p d"
  shows "strip (filter (\<lambda>c. code c \<noteq> 44) d) = filter is_decimal d"
    and "filter (\<lambda>c. code c \<noteq> 44) d = filter is_decimal d"
    and "isdigit (filter is_decimal d)"
proof -
  from assms have d: "list_all vote_char d" "list_ex is_decimal d"
    by (simp_all add: well_formed_def)
  show "strip (filter (\<lambda>c. code c \<noteq> 44) d) = filter is_decimal d"
    using d(1) by (rule numeric_part_digits)
  show "filter (\<lambda>c. code c \<noteq> 44) d = filter is_decimal d"
    using d(1) by (intro filter_cong) (auto simp: list_all_iff vote_char_def is_decimal_def Let_def)
  from d(2) have "filter is_decimal d \<noteq> []" by (auto simp: list_ex_iff filter_empty_conv)
  then show "isdigit (filter is_decimal d)"
    by (auto simp: isdigit_def list_all_iff decimal_isdigit)
qed

lemma process_line_vote:
  assumes clean: "strip (collapse_ws l) = n @ p @ d" and ok: "spec_ok (Vote n p d)"
  shows "process_line m l =
           Inr (AList.update (nearest n) (decimal_value (filter (\<lambda>c. code c \<noteq> 44) d)) m)"
proof -
  from ok have wf: "well_formed n p d" and lim: "length (filter is_decimal d) \<le> 4300"
    and near: "list_ex (\<lambda>c. lev (lower n) (lower c) \<le> 2) DEFAULT_CANDIDATES"
    by simp_all
  from vote_pattern_well_formed [OF wf] obtain g1 where
    vp: "vote_pattern (strip (collapse_ws l)) = Some (g1, d)" and g1: "strip g1 = n"
    unfolding clean by blast
  note vs = well_formed_digits [OF wf]
  from process_line_parsed [OF vp, unfolded vs(1), OF vs(3) lim]
  obtain i where i: "i < length DEFAULT_CANDIDATES"
    and mn: "\<forall>c\<in>set DEFAULT_CANDIDATES. dist_to n (DEFAULT_CANDIDATES ! i) \<le> dist_to n c"
    and fs: "\<forall>j<i. dist_to n (DEFAULT_CANDIDATES ! i) < dist_to n (DEFAULT_CANDIDATES ! j)"
    and pl: "\<forall>matched. process_line matched l =
               Inr (if dist_to n (DEFAULT_CANDIDATES ! i) \<le> 2
                    then AList.update (DEFAULT_CANDIDATES ! i)
                           (decimal_value (filter is_decimal d)) matched
                    else matched)"
    unfolding g1 by blast
  have dl: "dist_to n = (\<lambda>c. lev (lower n) (lower c))"
    by (simp add: dist_to_def distance_lev fun_eq_iff)
  have "nearest n = DEFAULT_CANDIDATES ! i"
    unfolding nearest_def using i mn fs unfolding dl by (rule first_min_arg_min_list)
  moreover from near obtain c where "c \<in> set DEFAULT_CANDIDATES" "dist_to n c \<le> 2"
    unfolding dl by (auto simp: list_ex_iff)
  with mn have "dist_to n (DEFAULT_CANDIDATES ! i) \<le> 2" by fastforce
  ultimately show ?thesis using pl unfolding vs(2) by simp
qed

text \<open>A well-formed line of more than 4300 digits makes the loop raise.\<close>

lemma process_line_well_formed_oversize:
  assumes clean: "strip (collapse_ws l) = n @ p @ d" and wf: "well_formed n p d"
      and big: "4300 < length (filter is_decimal d)"
  shows "process_line m l = Inl ValueError"
proof -
  from vote_pattern_well_formed [OF wf] obtain g1 where
    vp: "vote_pattern (strip (collapse_ws l)) = Some (g1, d)"
    unfolding clean by blast
  note vs = well_formed_digits [OF wf]
  show ?thesis
    by (rule process_line_oversize [OF vp]) (simp_all add: vs(1) vs(3) big)
qed

lemma process_line_other:
  assumes "strip (collapse_ws l) = s" and "spec_ok (Other s)"
  shows "process_line m l = Inr m"
  using assms by (simp add: process_line_def vote_pattern_None_iff [symmetric])

lemma process_line_spec:
  assumes "strip (collapse_ws l) = spec_text x" and "spec_ok x"
  shows "process_line m l = Inr (fold (\<lambda>(k, v). AList.update k v) (spec_entries x) m)"
proof (cases x)
  case (Vote n p d)
  with assms process_line_vote [of l n p d m] show ?thesis by simp
next
  case (Other s)
  with assms process_line_other [of l s m] show ?thesis by simp
qed

lemma map_of_fold_update:
  "map_of (fold (\<lambda>(k, v). AList.update k v) es m) = map_of m ++ map_of (rev es)"
  by (induction es arbitrary: m) (auto simp: update_conv' map_add_def fun_eq_iff split: option.splits)

lemma extract_loop_spec:
  assumes "list_all2 (\<lambda>l x. strip (collapse_ws l) = spec_text x \<and> spec_ok x) ls xs"
  shows "\<exists>r. extract_loop m ls = Inr r
           \<and> map_of r = map_of m ++ map_of (rev (concat (map spec_entries xs)))"
  using assms
proof (induction ls xs arbitrary: m rule: list_all2_induct)
  case Nil
  show ?case by simp
next
  case (Cons l ls x xs)
  let ?m' = "fold (\<lambda>(k, v). AList.update k v) (spec_entries x) m"
  from Cons.hyps(1) have pl: "process_line m l = Inr ?m'"
    by (intro process_line_spec) simp_all
  from Cons.IH [of ?m'] obtain r where r: "extract_loop ?m' ls = Inr r"
    "map_of r = map_of ?m' ++ map_of (rev (concat (map spec_entries xs)))" by blast
  have "map_of r = map_of m ++ map_of (rev (concat (map spec_entries (x # xs))))"
    unfolding r(2) map_of_fold_update by (simp add: map_add_assoc)
  with pl r(1) show ?case by simp
qed

lemma map_eq_list_all2: "map f xs = map g ys \<Longrightarrow> list_all2 (\<lambda>a b. f a = g b) xs ys"
proof (induction xs arbitrary: ys)
  case Nil
  then show ?case by simp
next
  case (Cons x xs)
  then obtain y ys' where "ys = y # ys'" by (cases ys) auto
  with Cons show ?case by simp
qed

lemma extract_votes_spec:
  assumes "map (\<lambda>l. strip (collapse_ws l)) (text_lines body) = map spec_text xs"
      and "\<forall>x\<in>set xs. spec_ok x"
  shows "\<exists>r. extract_votes body = Inr r
           \<and> map_of r = map_of (rev (concat (map spec_entries xs)))"
proof -
  from assms(1) have "list_all2 (\<lambda>l x. strip (collapse_ws l) = spec_text x) (text_lines body) xs"
    by (rule map_eq_list_all2)
  with assms(2) have "list_all2 (\<lambda>l x. strip (collapse_ws l) = spec_text x \<and> spec_ok x) (text_lines body) xs"
    by (auto simp: list_all2_conv_all_nth)
  from extract_loop_spec [OF this, of "[]"] show ?thesis
    by (simp add: extract_votes_def)
qed

text \<open>The loop over the candidates finds the nearest entry of the specification.\<close>

lemma closest_nearest:
  "closest n DEFAULT_CANDIDATES (None, \<infinity>) = (Some (nearest n), enat (dist_to n (nearest n)))"
proof -
  from closest_start [OF DEFAULT_CANDIDATES_not_Nil, of n]
  obtain i where i: "i < length DEFAULT_CANDIDATES"
    and cl: "closest n DEFAULT_CANDIDATES (None, \<infinity>) =
              (Some (DEFAULT_CANDIDATES ! i), enat (dist_to n (DEFAULT_CANDIDATES ! i)))"
    and mn: "\<forall>c\<in>set DEFAULT_CANDIDATES. dist_to n (DEFAULT_CANDIDATES ! i) \<le> dist_to n c"
    and fs: "\<forall>j<i. dist_to n (DEFAULT_CANDIDATES ! i) < dist_to n (DEFAULT_CANDIDATES ! j)"
    by blast
  have dl: "dist_to n = (\<lambda>c. lev (lower n) (lower c))"
    by (simp add: dist_to_def distance_lev fun_eq_iff)
  have "nearest n = DEFAULT_CANDIDATES ! i"
    unfolding nearest_def using i mn fs unfolding dl by (rule first_min_arg_min_list)
  with cl show ?thesis by simp
qed

text \<open>
  Up to the digit limit: for a line whose name part and numeric part parse, the name is
  compared with every catalog entry by the edit distance of the lower-cased strings; the
  entry chosen is at the least distance, and every entry before it in the catalog is
  strictly farther; the pair is recorded when that distance is at most 2, otherwise the
  mapping is returned as it was.
\<close>

lemma fuzzy_match_first_minimum:
  assumes "vote_pattern (strip (collapse_ws line)) = Some (g1, g2)"
      and "isdigit (strip (filter (\<lambda>c. code c \<noteq> 44) g2))"
      and "length (strip (filter (\<lambda>c. code c \<noteq> 44) g2)) \<le> 4300"
  shows "\<exists>i<length DEFAULT_CANDIDATES.
           (\<forall>c\<in>set DEFAULT_CANDIDATES.
              dist_to (strip g1) (DEFAULT_CANDIDATES ! i) \<le> dist_to (strip g1) c)
         \<and> (\<forall>j<i. dist_to (strip g1) (DEFAULT_CANDIDATES ! i)
                    < dist_to (strip g1) (DEFAULT_CANDIDATES ! j))
         \<and> dist_to (strip g1) (DEFAULT_CANDIDATES ! i) =
             lev (lower (strip g1)) (lower (DEFAULT_CANDIDATES ! i))
         \<and> (\<forall>matched. process_line matched line =
               Inr (if dist_to (strip g1) (DEFAULT_CANDIDATES ! i) \<le> 2
                    then AList.update (DEFAULT_CANDIDATES ! i)
                           (decimal_value (strip (filter (\<lambda>c. code c \<noteq> 44) g2))) matched
                    else matched))"
  using process_line_parsed [OF assms] by (simp add: dist_to_def distance_lev)

text \<open>
  Scenario B, a name one letter off; scenario C, a name far from every entry; and a name
  in other letter case, recorded under the catalog's spelling.
\<close>

lemma scenarios_b_c:
  "process_line [] ''Chakweraa: 500'' = Inr [(''Chakwera'', 500)]
   \<and> process_line [] ''Xyzzyplorp: 500'' = Inr []
   \<and> process_line [] ''CHAKWERA: 5'' = Inr [(''Chakwera'', 5)]"
proof -
  have b: "process_line [] ''Chakweraa: 500'' = Inr [(''Chakwera'', 500)]" by code_simp
  have c: "process_line [] ''Xyzzyplorp: 500'' = Inr []" by code_simp
  have d: "process_line [] ''CHAKWERA: 5'' = Inr [(''Chakwera'', 5)]" by code_simp
  from b c d show ?thesis by simp
qed

text \<open>
  Up to the digit limit, a later line overwrites an earlier one: in the text of three
  lines, two resolve to \<open>Banda\<close>, and the result holds the count of the second.
\<close>

lemma later_line_example:
  "extract_votes duplicate_lines = Inr [(''Banda'', 20), (''Dube'', 5)]"
  by code_simp

text \<open>
  Up to the digit limit: when every line of a text, after the normalisation of its
  whitespace, is a well-formed line or a line without the shape, the extraction maps
  exactly the nearest catalog entries of the well-formed lines to the values of their
  digits with the commas removed (a later line wins). Scenario A is such a text.
\<close>

lemma scenario_a_extracted:
  "extract_votes scenario_a = Inr [(''Chakwera'', 12345), (''Mutharika'', 9000)]"
  by code_simp

lemma scenario_a_well_formed:
  "map (\<lambda>l. strip (collapse_ws l)) (text_lines scenario_a) =
     map spec_text [Vote ''Chakwera'' '': '' ''12,345'', Vote ''Mutharika'' '' '' ''9000'', Other ''???'']
   \<and> spec_ok (Vote ''Chakwera'' '': '' ''12,345'')
   \<and> spec_ok (Vote ''Mutharika'' '' '' ''9000'')
   \<and> spec_ok (Other ''???'')"
proof -
  let ?xs = "[Vote ''Chakwera'' '': '' ''12,345'', Vote ''Mutharika'' '' '' ''9000'', Other ''???'']"
  have t: "map (\<lambda>l. strip (collapse_ws l)) (text_lines scenario_a) = map spec_text ?xs"
    by code_simp
  have 1: "spec_ok (Vote ''Chakwera'' '': '' ''12,345'')"
    unfolding spec_ok.simps well_formed_def distance_lev [symmetric] by code_simp
  have 2: "spec_ok (Vote ''Mutharika'' '' '' ''9000'')"
    unfolding spec_ok.simps well_formed_def distance_lev [symmetric] by code_simp
  have "vote_pattern ''???'' = None" by code_simp
  then have 3: "spec_ok (Other ''???'')" by (simp add: vote_pattern_None_iff)
  from t 1 2 3 show ?thesis by simp
qed

section \<open>Extraction: counts of more than 4300 digits\<close>

text \<open>
  The lines with a count of \<open>k\<close> zeros: what the line splitting and the normalisation of
  whitespace make of them.
\<close>

lemma collapse_ws_prefix:
  "\<forall>c\<in>set xs. \<not> is_space c \<Longrightarrow> collapse_ws (xs @ ys) = xs @ collapse_ws ys"
  by (induction xs) simp_all

lemma splitlines_from_no_break:
  "\<forall>c\<in>set s. \<not> is_linebreak c \<Longrightarrow>
     splitlines_from cur s = (if cur = [] \<and> s = [] then [] else [rev cur @ s])"
  by (induction s arbitrary: cur) simp_all

lemma splitlines_from_break:
  "\<forall>c\<in>set xs. \<not> is_linebreak c \<Longrightarrow>
     splitlines_from cur (xs @ CHR 0x0A # ys) = (rev cur @ xs) # splitlines_from [] ys"
proof (induction xs arbitrary: cur)
  case Nil
  have "is_linebreak (CHR 0x0A)" "code (CHR 0x0A) \<noteq> 13" by code_simp+
  then show ?case by simp
next
  case (Cons x xs)
  then show ?case by simp
qed

lemma zero_facts:
  "\<not> is_space (CHR ''0'')" "\<not> is_linebreak (CHR ''0'')" "is_decimal (CHR ''0'')"
  "vote_char (CHR ''0'')" "digit_val (CHR ''0'') = 0" "is_space (CHR '' '')"
  by code_simp+

lemma dube_facts:
  "list_all (\<lambda>c. \<not> is_space c) ''Dube:''" "list_all (\<lambda>c. \<not> is_linebreak c) ''Dube: ''"
  "list_all name_char ''Dube''" "list_all sep_char '': ''"
  "\<not> is_space (CHR ''D'')" "\<not> is_space (CHR ''e'')"
  by code_simp+

lemma decimal_value_zeros: "decimal_value (replicate k (CHR ''0'')) = 0"
proof -
  have "foldl (\<lambda>n c. 10 * n + digit_val c) 0 (replicate k (CHR ''0'')) = 0"
    by (induction k) (simp_all add: zero_facts)
  then show ?thesis by (simp add: decimal_value_def)
qed

lemma zeros_line_clean:
  assumes "0 < k"
  shows "strip (collapse_ws (''Dube: '' @ replicate k (CHR ''0''))) =
           ''Dube'' @ '': '' @ replicate k (CHR ''0'')"
    and "strip (''Dube: '' @ replicate k (CHR ''0'')) = ''Dube: '' @ replicate k (CHR ''0'')"
proof -
  let ?z = "replicate k (CHR ''0'')"
  let ?l = "''Dube: '' @ ?z"
  have z: "\<forall>c\<in>set ?z. \<not> is_space c" by (simp add: zero_facts)
  have dz: "dropWhile is_space ?z = ?z"
    using assms by (cases k) (simp_all add: zero_facts)
  have "collapse_ws ?z = ?z" using collapse_ws_prefix [OF z, of "[]"] by simp
  then have "collapse_ws (CHR '' '' # ?z) = CHR '' '' # ?z"
    by (simp add: zero_facts dz)
  moreover have "collapse_ws (''Dube:'' @ CHR '' '' # ?z) = ''Dube:'' @ collapse_ws (CHR '' '' # ?z)"
    using dube_facts(1) by (intro collapse_ws_prefix) (simp add: list_all_iff)
  ultimately have c: "collapse_ws ?l = ?l" by simp
  have "?l \<noteq> []" "\<not> is_space (hd ?l)" "\<not> is_space (last ?l)"
    using assms by (simp_all add: dube_facts zero_facts)
  from strip_trailing [OF this, of "[]"] show s: "strip ?l = ?l" by simp
  show "strip (collapse_ws ?l) = ''Dube'' @ '': '' @ ?z"
    unfolding c s by simp
qed

lemma zeros_well_formed:
  assumes "0 < k"
  shows "well_formed ''Dube'' '': '' (replicate k (CHR ''0''))"
proof -
  have a: "list_all vote_char (replicate k (CHR ''0''))" by (simp add: list_all_iff zero_facts)
  have b: "list_ex is_decimal (replicate k (CHR ''0''))"
    using assms by (simp add: list_ex_iff zero_facts)
  show ?thesis
    unfolding well_formed_def
    by (intro conjI dube_facts(3,4) a b) (simp_all add: dube_facts(5,6))
qed

lemma zeros_line_oversize:
  assumes "4300 < k"
  shows "process_line m (''Dube: '' @ replicate k (CHR ''0'')) = Inl ValueError"
proof -
  from assms have k: "0 < k" by simp
  show ?thesis
    by (rule process_line_well_formed_oversize [OF zeros_line_clean(1) [OF k] zeros_well_formed [OF k]])
       (simp add: filter_replicate zero_facts assms)
qed

lemma dube_nearest: "nearest ''Dube'' = ''Dube''"
proof -
  have "closest ''Dube'' DEFAULT_CANDIDATES (None, \<infinity>) = (Some ''Dube'', 0)" by code_simp
  then show ?thesis by (simp add: closest_nearest)
qed

lemma dube_near: "list_ex (\<lambda>c. lev (lower ''Dube'') (lower c) \<le> 2) DEFAULT_CANDIDATES"
  unfolding distance_lev [symmetric] by code_simp

lemma zeros_line_within_limit:
  assumes "0 < k" and "k \<le> 4300"
  shows "process_line m (''Dube: '' @ replicate k (CHR ''0'')) = Inr (AList.update ''Dube'' 0 m)"
proof -
  have ok: "spec_ok (Vote ''Dube'' '': '' (replicate k (CHR ''0'')))"
    using zeros_well_formed [OF assms(1)] dube_near assms(2)
    by (simp add: filter_replicate zero_facts)
  have v: "decimal_value (filter (\<lambda>c. code c \<noteq> 44) (replicate k (CHR ''0''))) = 0"
    unfolding well_formed_digits(2) [OF zeros_well_formed [OF assms(1)]]
    by (simp add: filter_replicate zero_facts decimal_value_zeros)
  from process_line_vote [OF zeros_line_clean(1) [OF assms(1)] ok, of m]
  show ?thesis unfolding v dube_nearest .
qed

lemma text_lines_clean:
  assumes "splitlines t = ls" and "\<forall>l\<in>set ls. strip l = l \<and> l \<noteq> []"
  shows "text_lines t = ls"
proof -
  have "filter (\<lambda>line. strip line \<noteq> []) ls = ls" using assms(2) by (simp add: filter_id_conv)
  moreover have "map strip ls = ls" using assms(2) by (simp add: map_idI)
  ultimately show ?thesis by (simp add: text_lines_def assms(1))
qed

lemma zeros_splitlines:
  "splitlines_from [] (''Dube: '' @ replicate k (CHR ''0'')) = [''Dube: '' @ replicate k (CHR ''0'')]"
proof -
  let ?l = "''Dube: '' @ replicate k (CHR ''0'')"
  have "\<forall>c\<in>set ?l. \<not> is_linebreak c"
    using dube_facts(2) by (auto simp: list_all_iff zero_facts)
  from splitlines_from_no_break [OF this, of "[]"] show ?thesis by simp
qed

lemma zeros_text_lines:
  assumes "0 < k"
  shows "text_lines (''Dube: '' @ replicate k (CHR ''0'')) = [''Dube: '' @ replicate k (CHR ''0'')]"
proof (rule text_lines_clean)
  show "splitlines (''Dube: '' @ replicate k (CHR ''0'')) = [''Dube: '' @ replicate k (CHR ''0'')]"
    unfolding splitlines_def by (rule zeros_splitlines)
  show "\<forall>l\<in>set [''Dube: '' @ replicate k (CHR ''0'')]. strip l = l \<and> l \<noteq> []"
    using zeros_line_clean(2) [OF assms] by simp
qed

text \<open>
  C2, at a failing input. The line \<open>Dube:\<close> followed by a count of 4301 zeros is
  well-formed, its name part parses and is the catalog entry \<open>Dube\<close> itself, and the loop
  body raises \<open>ValueError\<close>: \<open>int\<close> refuses the digits that \<open>isdigit\<close> accepted. With 4300
  zeros the pair is recorded.
\<close>

theorem oversize_count_raises:
  "well_formed ''Dube'' '': '' (replicate 4301 (CHR ''0''))
   \<and> strip (collapse_ws oversize_line) = ''Dube'' @ '': '' @ replicate 4301 (CHR ''0'')
   \<and> nearest ''Dube'' = ''Dube''
   \<and> process_line [] oversize_line = Inl ValueError
   \<and> process_line [] largest_line = Inr [(''Dube'', 0)]"
proof -
  have k: "(0::nat) < 4301" "(4300::nat) < 4301" "(0::nat) < 4300" "(4300::nat) \<le> 4300"
    by simp_all
  have "process_line [] largest_line = Inr (AList.update ''Dube'' 0 [])"
    unfolding largest_line_def by (rule zeros_line_within_limit [OF k(3,4)])
  then have "process_line [] largest_line = Inr [(''Dube'', 0)]" by simp
  moreover have "process_line [] oversize_line = Inl ValueError"
    unfolding oversize_line_def by (rule zeros_line_oversize [OF k(2)])
  moreover note zeros_well_formed [OF k(1)] zeros_line_clean(1) [OF k(1), folded oversize_line_def]
    dube_nearest
  ultimately show ?thesis by blast
qed

text \<open>
  C3, at a failing input. The text made of the one well-formed line \<open>Dube:\<close> followed by
  4301 zeros, whose name is a catalog entry, yields no mapping: \<open>extract_votes\<close> raises
  \<open>ValueError\<close>.
\<close>

theorem oversize_text_raises:
  "text_lines oversize_line = [oversize_line]
   \<and> well_formed ''Dube'' '': '' (replicate 4301 (CHR ''0''))
   \<and> list_ex (\<lambda>c. lev (lower ''Dube'') (lower c) \<le> 2) DEFAULT_CANDIDATES
   \<and> extract_votes oversize_line = Inl ValueError"
proof -
  have k: "(0::nat) < 4301" "(4300::nat) < 4301" by simp_all
  have t: "text_lines oversize_line = [oversize_line]"
    unfolding oversize_line_def by (rule zeros_text_lines [OF k(1)])
  have p: "process_line [] oversize_line = Inl ValueError"
    unfolding oversize_line_def by (rule zeros_line_oversize [OF k(2)])
  have "extract_votes oversize_line = Inl ValueError"
    unfolding extract_votes_def t by (simp add: p)
  with t zeros_well_formed [OF k(1)] dube_near show ?thesis by blast
qed

text \<open>
  C9, at a failing input. Two lines of the text resolve to \<open>Banda\<close>, with counts 10 and 20,
  and a third line has a count of 4301 zeros: \<open>extract_votes\<close> raises \<open>ValueError\<close> and
  returns no mapping.
\<close>

theorem oversize_after_duplicates_raises:
  "text_lines oversize_after_duplicates = [''Banda: 10'', ''Bandaa 20'', oversize_line]
   \<and> process_line [] ''Banda: 10'' = Inr [(''Banda'', 10)]
   \<and> process_line [(''Banda'', 10)] ''Bandaa 20'' = Inr [(''Banda'', 20)]
   \<and> extract_votes oversize_after_duplicates = Inl ValueError"
proof -
  have k: "(0::nat) < 4301" "(4300::nat) < 4301" by simp_all
  have nb: "\<forall>c\<in>set ''Banda: 10''. \<not> is_linebreak c" "\<forall>c\<in>set ''Bandaa 20''. \<not> is_linebreak c"
    by code_simp+
  have st: "strip ''Banda: 10'' = ''Banda: 10''" "strip ''Bandaa 20'' = ''Bandaa 20''"
    by code_simp+
  have so: "strip oversize_line = oversize_line"
    unfolding oversize_line_def by (rule zeros_line_clean(2) [OF k(1)])
  have ne: "oversize_line \<noteq> []" unfolding oversize_line_def by simp
  have one: "splitlines_from [] oversize_line = [oversize_line]"
    unfolding oversize_line_def by (rule zeros_splitlines)
  have eq: "oversize_after_duplicates =
              ''Banda: 10'' @ CHR 0x0A # (''Bandaa 20'' @ CHR 0x0A # oversize_line)"
    unfolding oversize_after_duplicates_def by simp
  have "splitlines_from [] (''Banda: 10'' @ CHR 0x0A # (''Bandaa 20'' @ CHR 0x0A # oversize_line)) =
          (rev [] @ ''Banda: 10'') # (rev [] @ ''Bandaa 20'') # [oversize_line]"
    unfolding splitlines_from_break [OF nb(1)] splitlines_from_break [OF nb(2)] one
    by (rule refl)
  then have sp: "splitlines oversize_after_duplicates = [''Banda: 10'', ''Bandaa 20'', oversize_line]"
    unfolding splitlines_def eq by simp
  have t: "text_lines oversize_after_duplicates = [''Banda: 10'', ''Bandaa 20'', oversize_line]"
    by (rule text_lines_clean [OF sp]) (simp add: st so ne)
  have 1: "process_line [] ''Banda: 10'' = Inr [(''Banda'', 10)]" by code_simp
  have 2: "process_line [(''Banda'', 10)] ''Bandaa 20'' = Inr [(''Banda'', 20)]" by code_simp
  have 3: "process_line [(''Banda'', 20)] oversize_line = Inl ValueError"
    unfolding oversize_line_def by (rule zeros_line_oversize [OF k(2)])
  have "extract_votes oversize_after_duplicates = Inl ValueError"
    unfolding extract_votes_def t by (simp add: 1 2 3)
  with t 1 2 show ?thesis by blast
qed

section \<open>The conversation: properties\<close>

lemma handle_callback: "handle ev s st u (Callback d) = state_handler ev s st u (Callback d)"
  by (simp add: handle_def split: option.splits)

lemma handle_text: "handle ev s st u (Text t) = state_handler ev s st u (Text t)"
  by (simp add: handle_def split: option.splits)

lemma fresh_7: "fresh 7 = Some \<lparr>candidates = map (\<lambda>c. (c, 0)) DEFAULT_CANDIDATES, region = None, district = None,
    votes_confirmed = False, candidate_to_edit = None\<rparr>"
  by (simp add: fresh_def start_def ret_def DEFAULT_CANDIDATES_def)

text \<open>
  C1, as amended. In a session that exists: a menu token that the handler of the state
  does not recognise leaves the store as it was and returns the same state (in a state
  without a handler for tokens the event is not handled at all); so does, in
  \<open>EDIT_SINGLE_CANDIDATE\<close> with an edit target set, a text that \<open>str.isdigit\<close> rejects. With
  no edit target set, any text in that state leaves the store as it was and returns
  \<open>EDIT_MENU\<close>.
\<close>

theorem invalid_event_no_advance:
  assumes "st u = Some sess"
  shows "(\<not> recognised s d \<longrightarrow>
            (case handle ev s st u (Callback d) of
               None \<Rightarrow> True
             | Some out \<Rightarrow> sessions out = st \<and> returned out = Inr (Some s)))
       \<and> (candidate_to_edit sess = Some c \<and> c \<noteq> [] \<and> \<not> isdigit (strip t) \<longrightarrow>
            handle ev EDIT_SINGLE_CANDIDATE st u (Text t) =
              Some \<lparr>sessions = st, effects = [Say AskValidInteger],
                    returned = Inr (Some EDIT_SINGLE_CANDIDATE)\<rparr>)
       \<and> (candidate_to_edit sess = None \<or> candidate_to_edit sess = Some [] \<longrightarrow>
            handle ev EDIT_SINGLE_CANDIDATE st u (Text t) =
              Some \<lparr>sessions = st, effects = [Say NoCandidateSelected],
                    returned = Inr (Some EDIT_MENU)\<rparr>)"
proof (intro conjI impI)
  assume "\<not> recognised s d"
  with assms show "case handle ev s st u (Callback d) of
               None \<Rightarrow> True
             | Some out \<Rightarrow> sessions out = st \<and> returned out = Inr (Some s)"
    unfolding handle_callback
    by (cases s)
       (simp_all add: choose_input_mode_handler_def edit_menu_handler_def
          edit_single_candidate_handler_def remove_candidate_name_handler_def
          select_region_handler_def select_district_handler_def confirm_override_handler_def
          ret_def)
next
  assume "candidate_to_edit sess = Some c \<and> c \<noteq> [] \<and> \<not> isdigit (strip t)"
  with assms show "handle ev EDIT_SINGLE_CANDIDATE st u (Text t) =
              Some \<lparr>sessions = st, effects = [Say AskValidInteger],
                    returned = Inr (Some EDIT_SINGLE_CANDIDATE)\<rparr>"
    unfolding handle_text by (simp add: receive_single_candidate_vote_def ret_def)
next
  assume "candidate_to_edit sess = None \<or> candidate_to_edit sess = Some []"
  with assms show "handle ev EDIT_SINGLE_CANDIDATE st u (Text t) =
              Some \<lparr>sessions = st, effects = [Say NoCandidateSelected],
                    returned = Inr (Some EDIT_MENU)\<rparr>"
    unfolding handle_text by (auto simp add: receive_single_candidate_vote_def ret_def)
qed

theorem invalid_event_no_advance_witness:
  "handle offline EDIT_MENU fresh 7 (Callback ''launch'') =
      Some \<lparr>sessions = fresh, effects = [Say SelectValidOption], returned = Inr (Some EDIT_MENU)\<rparr>
   \<and> handle offline EDIT_SINGLE_CANDIDATE
        (fresh(7 \<mapsto> (the (fresh 7))\<lparr>candidate_to_edit := Some ''Banda''\<rparr>)) 7 (Text ''12a'') =
      Some \<lparr>sessions = fresh(7 \<mapsto> (the (fresh 7))\<lparr>candidate_to_edit := Some ''Banda''\<rparr>),
            effects = [Say AskValidInteger], returned = Inr (Some EDIT_SINGLE_CANDIDATE)\<rparr>
   \<and> handle offline EDIT_SINGLE_CANDIDATE fresh 7 (Text ''12a'') =
      Some \<lparr>sessions = fresh, effects = [Say NoCandidateSelected], returned = Inr (Some EDIT_MENU)\<rparr>"
proof -
  let ?s = "the (fresh 7)"
  let ?st = "fresh(7 \<mapsto> ?s\<lparr>candidate_to_edit := Some ''Banda''\<rparr>)"
  have nd: "\<not> isdigit (strip ''12a'')" by code_simp
  have nr: "\<not> recognised EDIT_MENU ''launch''" by simp
  have f: "fresh 7 = Some ?s" by (simp add: fresh_7)
  have g: "?st 7 = Some (?s\<lparr>candidate_to_edit := Some ''Banda''\<rparr>)" by simp
  have c0: "candidate_to_edit ?s = None" by (simp add: fresh_7)
  have 1: "handle offline EDIT_MENU fresh 7 (Callback ''launch'') =
      Some \<lparr>sessions = fresh, effects = [Say SelectValidOption], returned = Inr (Some EDIT_MENU)\<rparr>"
    using invalid_event_no_advance [where st = fresh and u = 7 and s = EDIT_MENU and d = "''launch''"
        and ev = offline, OF f] nr
    by (simp add: handle_callback edit_menu_handler_def ret_def)
  have 2: "handle offline EDIT_SINGLE_CANDIDATE ?st 7 (Text ''12a'') =
      Some \<lparr>sessions = ?st, effects = [Say AskValidInteger], returned = Inr (Some EDIT_SINGLE_CANDIDATE)\<rparr>"
    using invalid_event_no_advance [where st = "?st" and u = 7 and c = "''Banda''" and t = "''12a''"
        and ev = offline, OF g] nd by simp
  have 3: "handle offline EDIT_SINGLE_CANDIDATE fresh 7 (Text ''12a'') =
      Some \<lparr>sessions = fresh, effects = [Say NoCandidateSelected], returned = Inr (Some EDIT_MENU)\<rparr>"
    using invalid_event_no_advance [where st = fresh and u = 7 and t = "''12a''" and ev = offline, OF f] c0
    by simp
  from 1 2 3 show ?thesis by simp
qed

text \<open>
  C1 as stated fails. Right after \<open>/start\<close>, with no candidate chosen, the text \<open>abc\<close> in
  \<open>EDIT_SINGLE_CANDIDATE\<close> is not an integer, and the handler returns \<open>EDIT_MENU\<close>. With a
  candidate chosen, the text made of the superscript digit 2 (code point 178) is not an
  integer either: \<open>str.isdigit\<close> accepts it, \<open>int\<close> rejects it, and the handler raises
  \<open>ValueError\<close> instead of returning a state.
\<close>

theorem text_before_target_counterexample:
  "\<not> isdigit (strip ''abc'')
   \<and> handle offline EDIT_SINGLE_CANDIDATE fresh 7 (Text ''abc'') =
       Some \<lparr>sessions = fresh, effects = [Say NoCandidateSelected], returned = Inr (Some EDIT_MENU)\<rparr>
   \<and> Inr (Some EDIT_MENU) \<noteq> (Inr (Some EDIT_SINGLE_CANDIDATE) :: py_error + state option)
   \<and> py_int [CHR 0xB2] = Inl ValueError
   \<and> handle offline EDIT_SINGLE_CANDIDATE editing 7 (Text [CHR 0xB2]) =
       Some \<lparr>sessions = editing, effects = [], returned = Inl ValueError\<rparr>"
proof -
  have a: "\<not> isdigit (strip ''abc'')" by code_simp
  have b: "handle offline EDIT_SINGLE_CANDIDATE fresh 7 (Text ''abc'') =
       Some \<lparr>sessions = fresh, effects = [Say NoCandidateSelected], returned = Inr (Some EDIT_MENU)\<rparr>"
    by (simp add: handle_text receive_single_candidate_vote_def fresh_7 ret_def)
  have s: "strip [CHR 0xB2] = [CHR 0xB2]" by code_simp
  have d: "isdigit [CHR 0xB2]" by code_simp
  have i: "py_int [CHR 0xB2] = Inl ValueError" by code_simp
  have c: "handle offline EDIT_SINGLE_CANDIDATE editing 7 (Text [CHR 0xB2]) =
       Some \<lparr>sessions = editing, effects = [], returned = Inl ValueError\<rparr>"
    unfolding handle_text state_handler.simps receive_single_candidate_vote_def s
    by (simp add: editing_def d i raise_def)
  from a b i c show ?thesis by simp
qed

text \<open>
  C4, at a failing input. The user has removed every candidate, chosen the region and
  now chooses a district with no submitted data: \<open>submit_data\<close> reports incomplete data
  and ends the conversation without a call to the sheet, but the session stays in the
  store.
\<close>

theorem incomplete_submission_keeps_session:
  "handle offline SELECT_DISTRICT emptied 7 (Callback ''district_Dowa'') =
     Some \<lparr>sessions = emptied(7 \<mapsto> (the (emptied 7))\<lparr>district := Some ''Dowa''\<rparr>),
           effects = [CallSubmittedDistricts, Say (DistrictSelected ''Dowa''), Say IncompleteData],
           returned = Inr END\<rparr>
   \<and> sessions (the (handle offline SELECT_DISTRICT emptied 7 (Callback ''district_Dowa''))) 7 \<noteq> None"
proof -
  have r: "remove_all ''district_'' ''district_Dowa'' = ''Dowa''" by code_simp
  have s: "startswith ''district_'' ''district_Dowa''" by code_simp
  have l: "lower ''Dowa'' = ''dowa''" by code_simp
  show ?thesis
    by (simp add: handle_callback select_district_handler_def r s l emptied_def submit_data_def
        get_submitted_districts_def offline_def ret_def Let_def)
qed

text \<open>
  C6, as amended. From every state the command \<open>/cancel\<close> removes the session of the user
  from the store and ends the conversation, and a lookup of the user finds nothing
  afterwards. The menu token \<open>cancel\<close> does the same in the six states whose menus offer
  it. In \<open>CONFIRM_OVERRIDE\<close> the token is answered with a request to choose an option, and
  the store and the state are kept. In the four states that take messages only, the token
  is not handled.
\<close>

theorem cancellation_removes_session:
  "handle ev s st u (Command ''cancel'') =
     Some \<lparr>sessions = st(u := None), effects = [Say CancelledByCommand], returned = Inr END\<rparr>
   \<and> sessions (the (handle ev s st u (Command ''cancel''))) u = None
   \<and> handle ev CHOOSE_INPUT_MODE st u (Callback ''cancel'') =
       Some \<lparr>sessions = st(u := None), effects = [Say Cancelled], returned = Inr END\<rparr>
   \<and> handle ev EDIT_MENU st u (Callback ''cancel'') =
       Some \<lparr>sessions = st(u := None), effects = [Say Cancelled], returned = Inr END\<rparr>
   \<and> handle ev EDIT_SINGLE_CANDIDATE st u (Callback ''cancel'') =
       Some \<lparr>sessions = st(u := None), effects = [Say Cancelled], returned = Inr END\<rparr>
   \<and> handle ev REMOVE_CANDIDATE_NAME st u (Callback ''cancel'') =
       Some \<lparr>sessions = st(u := None), effects = [Say Cancelled], returned = Inr END\<rparr>
   \<and> handle ev SELECT_REGION st u (Callback ''cancel'') =
       Some \<lparr>sessions = st(u := None), effects = [Say Cancelled], returned = Inr END\<rparr>
   \<and> handle ev SELECT_DISTRICT st u (Callback ''cancel'') =
       Some \<lparr>sessions = st(u := None), effects = [Say Cancelled], returned = Inr END\<rparr>
   \<and> handle ev CONFIRM_OVERRIDE st u (Callback ''cancel'') =
       Some \<lparr>sessions = st, effects = [Say ChooseAnOption], returned = Inr (Some CONFIRM_OVERRIDE)\<rparr>
   \<and> handle ev WAIT_FOR_IMAGE st u (Callback ''cancel'') = None
   \<and> handle ev WAIT_FOR_TEXT st u (Callback ''cancel'') = None
   \<and> handle ev BULK_EDIT_ALL st u (Callback ''cancel'') = None
   \<and> handle ev ADD_CANDIDATE_NAME st u (Callback ''cancel'') = None"
proof -
  have c: "handle ev s st u (Command ''cancel'') =
     Some \<lparr>sessions = st(u := None), effects = [Say CancelledByCommand], returned = Inr END\<rparr>"
    by (cases s) (simp_all add: handle_def cancel_handler_def ret_def)
  show ?thesis
    unfolding c handle_callback
    by (simp add: choose_input_mode_handler_def edit_menu_handler_def
          edit_single_candidate_handler_def remove_candidate_name_handler_def
          select_region_handler_def select_district_handler_def confirm_override_handler_def
          startswith_def ret_def)
qed

text \<open>
  C6 as amended, at a concrete input: a session exists, and after \<open>/cancel\<close> in
  \<open>WAIT_FOR_TEXT\<close> it is gone.
\<close>

theorem cancellation_removes_session_witness:
  "sessions (the (handle offline WAIT_FOR_TEXT fresh 7 (Command ''cancel''))) 7 = None
   \<and> fresh 7 \<noteq> None"
  using cancellation_removes_session [of offline WAIT_FOR_TEXT fresh 7]
  by (simp add: fresh_7)

text \<open>
  C6 as stated fails: the menu token \<open>cancel\<close> in \<open>CONFIRM_OVERRIDE\<close> leaves the session in
  the store and the conversation in \<open>CONFIRM_OVERRIDE\<close>, and in \<open>WAIT_FOR_TEXT\<close> the token
  is not handled.
\<close>

theorem cancel_token_keeps_session_counterexample:
  "handle offline CONFIRM_OVERRIDE located 7 (Callback ''cancel'') =
     Some \<lparr>sessions = located, effects = [Say ChooseAnOption],
           returned = Inr (Some CONFIRM_OVERRIDE)\<rparr>
   \<and> sessions (the (handle offline CONFIRM_OVERRIDE located 7 (Callback ''cancel''))) 7 \<noteq> None
   \<and> handle offline WAIT_FOR_TEXT fresh 7 (Callback ''cancel'') = None"
  by (simp add: handle_callback confirm_override_handler_def ret_def located_def)

text \<open>
  C7, at a failing input. With no session in the store, choosing to edit a single
  candidate in \<open>EDIT_MENU\<close> raises \<open>KeyError\<close>; no expiry is reported.
\<close>

theorem missing_session_raises:
  "handle offline EDIT_MENU Map.empty 7 (Callback ''edit_individual'') =
     Some \<lparr>sessions = Map.empty, effects = [], returned = Inl KeyError\<rparr>"
  by (simp add: handle_callback edit_menu_handler_def raise_def)

text \<open>
  C8, at a failing input. An unknown command ends the conversation through
  \<open>fallback_handler\<close>, and the session is still in the store.
\<close>

theorem fallback_keeps_session:
  "handle offline EDIT_MENU fresh 7 (Command ''help'') =
     Some \<lparr>sessions = fresh, effects = [Say NotUnderstood], returned = Inr END\<rparr>
   \<and> sessions (the (handle offline EDIT_MENU fresh 7 (Command ''help''))) 7 \<noteq> None"
  by (simp add: handle_def fallback_handler_def ret_def fresh_7)

text \<open>Only \<open>submit_data\<close> checks for a missing session.\<close>

lemma submit_data_no_session:
  "st u = None \<Longrightarrow> submit_data ev st u fx = \<lparr>sessions = st, effects = fx @ [Say SessionExpired], returned = Inr END\<rparr>"
  by (simp add: submit_data_def ret_def)

text \<open>
  C5, as amended. In a session that exists: a failed recognition (a request that fails, a
  reply without parsed results, or an empty parsed text) is shown to the user, the store
  is unchanged and the state stays \<open>WAIT_FOR_IMAGE\<close>. A failed query of the submitted
  districts is never shown and yields the empty list: the region selection goes on to
  \<open>SELECT_DISTRICT\<close> with the session kept; the district selection skips the question of
  overriding and submits at once; an unrecognised token in \<open>SELECT_DISTRICT\<close> and the token
  \<open>override_no\<close> in \<open>CONFIRM_OVERRIDE\<close> show the districts again, none marked, with the store
  unchanged and the state \<open>SELECT_DISTRICT\<close>. Every reply to a submission without success is
  shown with its message, or \<open>Unknown error\<close> when it has none, the session is removed and
  the conversation ends.
\<close>

theorem external_failure_outcomes:
  assumes "st u = Some sess"
  shows "(photo \<noteq> [] \<and> (ocr_response ev = RequestException e \<or> ocr_response ev = Json []
                        \<or> ocr_response ev = Json ([] # ts)) \<longrightarrow>
            receive_photo_handler ev st u photo =
              \<lparr>sessions = st, effects = [Say Processing, CallOcr (last photo), Say OcrFailed],
               returned = Inr (Some WAIT_FOR_IMAGE)\<rparr>)
       \<and> (districts_response ev = RequestException e \<and> startswith ''region_'' d \<longrightarrow>
            select_region_handler ev st u d =
              \<lparr>sessions = st(u \<mapsto> sess\<lparr>region := Some (remove_all ''region_'' d)\<rparr>),
               effects = [CallSubmittedDistricts, Say (RegionSelected (remove_all ''region_'' d) [])],
               returned = Inr (Some SELECT_DISTRICT)\<rparr>)
       \<and> (districts_response ev = RequestException e \<and> startswith ''district_'' d \<longrightarrow>
            select_district_handler ev st u d =
              submit_data ev (st(u \<mapsto> sess\<lparr>district := Some (remove_all ''district_'' d)\<rparr>)) u
                [CallSubmittedDistricts, Say (DistrictSelected (remove_all ''district_'' d))])
       \<and> (districts_response ev = RequestException e \<and> \<not> startswith ''district_'' d
          \<and> d \<noteq> ''back_to_regions'' \<and> d \<noteq> ''cancel'' \<longrightarrow>
            select_district_handler ev st u d =
              \<lparr>sessions = st,
               effects = [CallSubmittedDistricts, Say (SelectADistrict (region sess) [])],
               returned = Inr (Some SELECT_DISTRICT)\<rparr>)
       \<and> (districts_response ev = RequestException e \<longrightarrow>
            confirm_override_handler ev st u ''override_no'' =
              \<lparr>sessions = st,
               effects = [CallSubmittedDistricts, Say (ChooseAnotherDistrict (region sess) [])],
               returned = Inr (Some SELECT_DISTRICT)\<rparr>)
       \<and> (region sess = Some r \<and> r \<noteq> [] \<and> district sess = Some di \<and> di \<noteq> []
          \<and> candidates sess \<noteq> [] \<and> \<not> success (send_to_google_sheet (sheet_response ev)) \<longrightarrow>
            submit_data ev st u fx =
              \<lparr>sessions = st(u := None),
               effects = fx @ [Say Submitting,
                               CallSheet \<lparr>p_region = r, p_district = di, p_timestamp = now ev,
                                          p_sender = sender ev, p_votes = candidates sess\<rparr>,
                               Say (SubmitFailed
                                      (case message_text (send_to_google_sheet (sheet_response ev)) of
                                         None \<Rightarrow> ''Unknown error'' | Some m \<Rightarrow> m))],
               returned = Inr END\<rparr>)
       \<and> send_to_google_sheet (RequestException e) = \<lparr>success = False, message_text = Some e\<rparr>"
proof -
  have 1: "photo \<noteq> [] \<and> (ocr_response ev = RequestException e \<or> ocr_response ev = Json []
                        \<or> ocr_response ev = Json ([] # ts)) \<longrightarrow>
            receive_photo_handler ev st u photo =
              \<lparr>sessions = st, effects = [Say Processing, CallOcr (last photo), Say OcrFailed],
               returned = Inr (Some WAIT_FOR_IMAGE)\<rparr>"
    by (auto simp add: receive_photo_handler_def ocr_image_def ret_def Let_def)
  have 2: "districts_response ev = RequestException e \<and> startswith ''region_'' d \<longrightarrow>
            select_region_handler ev st u d =
              \<lparr>sessions = st(u \<mapsto> sess\<lparr>region := Some (remove_all ''region_'' d)\<rparr>),
               effects = [CallSubmittedDistricts, Say (RegionSelected (remove_all ''region_'' d) [])],
               returned = Inr (Some SELECT_DISTRICT)\<rparr>"
    using assms
    by (simp add: select_region_handler_def get_submitted_districts_def ret_def Let_def)
  have 3: "districts_response ev = RequestException e \<and> startswith ''district_'' d \<longrightarrow>
            select_district_handler ev st u d =
              submit_data ev (st(u \<mapsto> sess\<lparr>district := Some (remove_all ''district_'' d)\<rparr>)) u
                [CallSubmittedDistricts, Say (DistrictSelected (remove_all ''district_'' d))]"
    using assms
    by (simp add: select_district_handler_def get_submitted_districts_def Let_def)
  have 4: "districts_response ev = RequestException e \<and> \<not> startswith ''district_'' d
          \<and> d \<noteq> ''back_to_regions'' \<and> d \<noteq> ''cancel'' \<longrightarrow>
            select_district_handler ev st u d =
              \<lparr>sessions = st,
               effects = [CallSubmittedDistricts, Say (SelectADistrict (region sess) [])],
               returned = Inr (Some SELECT_DISTRICT)\<rparr>"
    using assms
    by (simp add: select_district_handler_def get_submitted_districts_def ret_def)
  have 5: "districts_response ev = RequestException e \<longrightarrow>
            confirm_override_handler ev st u ''override_no'' =
              \<lparr>sessions = st,
               effects = [CallSubmittedDistricts, Say (ChooseAnotherDistrict (region sess) [])],
               returned = Inr (Some SELECT_DISTRICT)\<rparr>"
    using assms
    by (simp add: confirm_override_handler_def get_submitted_districts_def ret_def)
  have 6: "region sess = Some r \<and> r \<noteq> [] \<and> district sess = Some di \<and> di \<noteq> []
          \<and> candidates sess \<noteq> [] \<and> \<not> success (send_to_google_sheet (sheet_response ev)) \<longrightarrow>
            submit_data ev st u fx =
              \<lparr>sessions = st(u := None),
               effects = fx @ [Say Submitting,
                               CallSheet \<lparr>p_region = r, p_district = di, p_timestamp = now ev,
                                          p_sender = sender ev, p_votes = candidates sess\<rparr>,
                               Say (SubmitFailed
                                      (case message_text (send_to_google_sheet (sheet_response ev)) of
                                         None \<Rightarrow> ''Unknown error'' | Some m \<Rightarrow> m))],
               returned = Inr END\<rparr>"
    using assms by (simp add: submit_data_def ret_def Let_def)
  have 7: "send_to_google_sheet (RequestException e) = \<lparr>success = False, message_text = Some e\<rparr>"
    by (simp add: send_to_google_sheet_def)
  from 1 2 3 4 5 6 7 show ?thesis by blast
qed

text \<open>
  C5 as amended, at concrete inputs: with every external call failing, and with a sheet
  that answers without success and without a message.
\<close>

theorem external_failure_outcomes_witness:
  "receive_photo_handler offline fresh 7 [''small.jpg'', ''large.jpg''] =
     \<lparr>sessions = fresh, effects = [Say Processing, CallOcr ''large.jpg'', Say OcrFailed],
      returned = Inr (Some WAIT_FOR_IMAGE)\<rparr>
   \<and> select_region_handler offline fresh 7 ''region_Central'' =
     \<lparr>sessions = fresh(7 \<mapsto> (the (fresh 7))\<lparr>region := Some ''Central''\<rparr>),
      effects = [CallSubmittedDistricts, Say (RegionSelected ''Central'' [])],
      returned = Inr (Some SELECT_DISTRICT)\<rparr>
   \<and> select_district_handler offline located 7 ''district_Dowa'' =
     \<lparr>sessions = located(7 := None),
      effects = [CallSubmittedDistricts, Say (DistrictSelected ''Dowa''), Say Submitting,
                 CallSheet \<lparr>p_region = ''Central'', p_district = ''Dowa'',
                            p_timestamp = ''2025-09-16 18:00:00'', p_sender = ''Agent'',
                            p_votes = [(''Banda'', 10)]\<rparr>,
                 Say (SubmitFailed ''timeout'')],
      returned = Inr END\<rparr>
   \<and> select_district_handler offline located 7 ''other'' =
     \<lparr>sessions = located,
      effects = [CallSubmittedDistricts, Say (SelectADistrict (Some ''Central'') [])],
      returned = Inr (Some SELECT_DISTRICT)\<rparr>
   \<and> confirm_override_handler offline located 7 ''override_no'' =
     \<lparr>sessions = located,
      effects = [CallSubmittedDistricts, Say (ChooseAnotherDistrict (Some ''Central'') [])],
      returned = Inr (Some SELECT_DISTRICT)\<rparr>
   \<and> submit_data offline located 7 [Say Overriding] =
     \<lparr>sessions = located(7 := None),
      effects = [Say Overriding, Say Submitting,
                 CallSheet \<lparr>p_region = ''Central'', p_district = ''Dowa'',
                            p_timestamp = ''2025-09-16 18:00:00'', p_sender = ''Agent'',
                            p_votes = [(''Banda'', 10)]\<rparr>,
                 Say (SubmitFailed ''timeout'')],
      returned = Inr END\<rparr>
   \<and> submit_data refusing located 7 [Say Overriding] =
     \<lparr>sessions = located(7 := None),
      effects = [Say Overriding, Say Submitting,
                 CallSheet \<lparr>p_region = ''Central'', p_district = ''Dowa'',
                            p_timestamp = ''2025-09-16 18:00:00'', p_sender = ''Agent'',
                            p_votes = [(''Banda'', 10)]\<rparr>,
                 Say (SubmitFailed ''Unknown error'')],
      returned = Inr END\<rparr>"
proof -
  let ?sess = "\<lparr>candidates = [(''Banda'', 10)], region = Some ''Central'',
                district = Some ''Dowa'', votes_confirmed = False, candidate_to_edit = None\<rparr>"
  have f: "fresh 7 = Some (the (fresh 7))" by (simp add: fresh_7)
  have r: "remove_all ''region_'' ''region_Central'' = ''Central''" by code_simp
  have s: "startswith ''region_'' ''region_Central''" by code_simp
  have rd: "remove_all ''district_'' ''district_Dowa'' = ''Dowa''" by code_simp
  have sd: "startswith ''district_'' ''district_Dowa''" by code_simp
  have so: "\<not> startswith ''district_'' ''other''" by code_simp
  have l: "located 7 = Some ?sess" by (simp add: located_def)
  have same: "located(7 \<mapsto> ?sess\<lparr>district := Some ''Dowa''\<rparr>) = located"
    by (rule ext) (simp add: located_def)
  have off: "send_to_google_sheet (sheet_response offline) =
               \<lparr>success = False, message_text = Some ''timeout''\<rparr>"
    by (simp add: offline_def send_to_google_sheet_def)
  have ref: "send_to_google_sheet (sheet_response refusing) =
               \<lparr>success = False, message_text = None\<rparr>"
    by (simp add: refusing_def send_to_google_sheet_def)
  have 1: "receive_photo_handler offline fresh 7 [''small.jpg'', ''large.jpg''] =
     \<lparr>sessions = fresh, effects = [Say Processing, CallOcr ''large.jpg'', Say OcrFailed],
      returned = Inr (Some WAIT_FOR_IMAGE)\<rparr>"
    using external_failure_outcomes [where st = fresh and u = 7 and ev = offline
        and photo = "[''small.jpg'', ''large.jpg'']" and e = "''timeout''", OF f]
    by (simp add: offline_def)
  have 2: "select_region_handler offline fresh 7 ''region_Central'' =
     \<lparr>sessions = fresh(7 \<mapsto> (the (fresh 7))\<lparr>region := Some ''Central''\<rparr>),
      effects = [CallSubmittedDistricts, Say (RegionSelected ''Central'' [])],
      returned = Inr (Some SELECT_DISTRICT)\<rparr>"
    using external_failure_outcomes [where st = fresh and u = 7 and ev = offline
        and d = "''region_Central''" and e = "''timeout''", OF f] r s
    by (simp add: offline_def)
  have 6: "submit_data offline located 7 fx =
     \<lparr>sessions = located(7 := None),
      effects = fx @ [Say Submitting,
                 CallSheet \<lparr>p_region = ''Central'', p_district = ''Dowa'',
                            p_timestamp = ''2025-09-16 18:00:00'', p_sender = ''Agent'',
                            p_votes = [(''Banda'', 10)]\<rparr>,
                 Say (SubmitFailed ''timeout'')],
      returned = Inr END\<rparr>" for fx
    using external_failure_outcomes [where st = located and u = 7 and ev = offline
        and r = "''Central''" and di = "''Dowa''" and e = "''timeout''" and fx = fx, OF l]
    unfolding off by (simp add: offline_def)
  have 7: "submit_data refusing located 7 [Say Overriding] =
     \<lparr>sessions = located(7 := None),
      effects = [Say Overriding, Say Submitting,
                 CallSheet \<lparr>p_region = ''Central'', p_district = ''Dowa'',
                            p_timestamp = ''2025-09-16 18:00:00'', p_sender = ''Agent'',
                            p_votes = [(''Banda'', 10)]\<rparr>,
                 Say (SubmitFailed ''Unknown error'')],
      returned = Inr END\<rparr>"
    using external_failure_outcomes [where st = located and u = 7 and ev = refusing
        and r = "''Central''" and di = "''Dowa''" and fx = "[Say Overriding]", OF l]
    unfolding ref by (simp add: refusing_def)
  have "select_district_handler offline located 7 ''district_Dowa'' =
          submit_data offline (located(7 \<mapsto> ?sess\<lparr>district := Some ''Dowa''\<rparr>)) 7
            [CallSubmittedDistricts, Say (DistrictSelected ''Dowa'')]"
    using external_failure_outcomes [where st = located and u = 7 and ev = offline
        and d = "''district_Dowa''" and e = "''timeout''", OF l] rd sd
    by (simp add: offline_def)
  then have 3: "select_district_handler offline located 7 ''district_Dowa'' =
     \<lparr>sessions = located(7 := None),
      effects = [CallSubmittedDistricts, Say (DistrictSelected ''Dowa''), Say Submitting,
                 CallSheet \<lparr>p_region = ''Central'', p_district = ''Dowa'',
                            p_timestamp = ''2025-09-16 18:00:00'', p_sender = ''Agent'',
                            p_votes = [(''Banda'', 10)]\<rparr>,
                 Say (SubmitFailed ''timeout'')],
      returned = Inr END\<rparr>"
    unfolding same 6 by simp
  have 4: "select_district_handler offline located 7 ''other'' =
     \<lparr>sessions = located,
      effects = [CallSubmittedDistricts, Say (SelectADistrict (Some ''Central'') [])],
      returned = Inr (Some SELECT_DISTRICT)\<rparr>"
    using external_failure_outcomes [where st = located and u = 7 and ev = offline
        and d = "''other''" and e = "''timeout''", OF l] so
    by (simp add: offline_def)
  have 5: "confirm_override_handler offline located 7 ''override_no'' =
     \<lparr>sessions = located,
      effects = [CallSubmittedDistricts, Say (ChooseAnotherDistrict (Some ''Central'') [])],
      returned = Inr (Some SELECT_DISTRICT)\<rparr>"
    using external_failure_outcomes [where st = located and u = 7 and ev = offline
        and e = "''timeout''", OF l]
    by (simp add: offline_def)
  from 1 2 3 4 5 6 [of "[Say Overriding]"] 7 show ?thesis by simp
qed

text \<open>
  C5 as stated fails: after a failed recognition the session is still in the store and the
  state is \<open>WAIT_FOR_IMAGE\<close>; after a failed query of the submitted districts no failure is
  shown, the session is kept and the state is \<open>SELECT_DISTRICT\<close>.
\<close>

theorem failed_recognition_keeps_session_counterexample:
  "ocr_image (ocr_response offline) = None
   \<and> returned (receive_photo_handler offline fresh 7 [''large.jpg'']) = Inr (Some WAIT_FOR_IMAGE)
   \<and> sessions (receive_photo_handler offline fresh 7 [''large.jpg'']) 7 \<noteq> None
   \<and> get_submitted_districts (districts_response offline) = []
   \<and> effects (select_region_handler offline fresh 7 ''region_Central'') =
       [CallSubmittedDistricts, Say (RegionSelected ''Central'' [])]
   \<and> returned (select_region_handler offline fresh 7 ''region_Central'') = Inr (Some SELECT_DISTRICT)
   \<and> sessions (select_region_handler offline fresh 7 ''region_Central'') 7 \<noteq> None"
proof -
  have r: "remove_all ''region_'' ''region_Central'' = ''Central''" by code_simp
  have s: "startswith ''region_'' ''region_Central''" by code_simp
  show ?thesis
    by (simp add: receive_photo_handler_def ocr_image_def offline_def fresh_7 ret_def
          select_region_handler_def get_submitted_districts_def r s Let_def)
qed

text \<open>
  C10. \<open>start\<close> sets the tally to the catalog candidates, each with count 0; a non-empty
  extraction result in the text or the image state becomes the tally of the session as it
  is, and every earlier entry is dropped.
\<close>

theorem tally_initialised_and_replaced:
  "candidates (the (sessions (start prev u) u)) = map (\<lambda>c. (c, 0)) DEFAULT_CANDIDATES
   \<and> (st u = Some sess \<and> extract_votes body = Inr votes \<and> votes \<noteq> [] \<longrightarrow>
        receive_text_handler st u body =
          \<lparr>sessions = st(u \<mapsto> sess\<lparr>candidates := votes\<rparr>),
           effects = [Say (ParsedVotes votes)], returned = Inr (Some EDIT_MENU)\<rparr>)
   \<and> (st u = Some sess \<and> photo \<noteq> [] \<and> ocr_image (ocr_response ev) = Some body \<and> body \<noteq> []
      \<and> extract_votes body = Inr votes \<and> votes \<noteq> [] \<longrightarrow>
        receive_photo_handler ev st u photo =
          \<lparr>sessions = st(u \<mapsto> sess\<lparr>candidates := votes\<rparr>),
           effects = [Say Processing, CallOcr (last photo), Say (ParsedVotes votes)],
           returned = Inr (Some EDIT_MENU)\<rparr>)"
  by (auto simp add: start_def ret_def DEFAULT_CANDIDATES_def receive_text_handler_def
        receive_photo_handler_def)

text \<open>
  C10 at a concrete input: after \<open>Banda 10\<close> the tally holds that one entry and none of the
  seventeen initial ones.
\<close>

theorem tally_initialised_and_replaced_witness:
  "candidates (the (fresh 7)) = map (\<lambda>c. (c, 0)) DEFAULT_CANDIDATES
   \<and> extract_votes ''Banda 10'' = Inr [(''Banda'', 10)]
   \<and> candidates (the (sessions (receive_text_handler fresh 7 ''Banda 10'') 7)) = [(''Banda'', 10)]
   \<and> candidates (the (sessions (receive_photo_handler
        (offline\<lparr>ocr_response := Json [''Banda 10'']\<rparr>) fresh 7 [''large.jpg'']) 7)) = [(''Banda'', 10)]"
proof -
  let ?ev = "offline\<lparr>ocr_response := Json [''Banda 10'']\<rparr>"
  let ?s = "\<lparr>candidates = map (\<lambda>c. (c, 0)) DEFAULT_CANDIDATES, region = None, district = None,
             votes_confirmed = False, candidate_to_edit = None\<rparr>"
  have x: "extract_votes ''Banda 10'' = Inr [(''Banda'', 10)]" by code_simp
  have o: "ocr_image (ocr_response ?ev) = Some ''Banda 10''"
    by (simp add: ocr_image_def)
  note t = tally_initialised_and_replaced [where prev = "Map.empty" and st = fresh and u = 7
       and sess = "?s" and body = "''Banda 10''" and votes = "[(''Banda'', 10)]"
       and photo = "[''large.jpg'']" and ev = "?ev"]
  have 1: "candidates (the (fresh 7)) = map (\<lambda>c. (c, 0)) DEFAULT_CANDIDATES"
    using t by (simp add: fresh_def)
  have 2: "receive_text_handler fresh 7 ''Banda 10'' =
          \<lparr>sessions = fresh(7 \<mapsto> ?s\<lparr>candidates := [(''Banda'', 10)]\<rparr>),
           effects = [Say (ParsedVotes [(''Banda'', 10)])], returned = Inr (Some EDIT_MENU)\<rparr>"
    using t fresh_7 x by blast
  have 3: "receive_photo_handler ?ev fresh 7 [''large.jpg''] =
          \<lparr>sessions = fresh(7 \<mapsto> ?s\<lparr>candidates := [(''Banda'', 10)]\<rparr>),
           effects = [Say Processing, CallOcr (last [''large.jpg'']), Say (ParsedVotes [(''Banda'', 10)])],
           returned = Inr (Some EDIT_MENU)\<rparr>"
    using t fresh_7 x o by blast
  show ?thesis unfolding 2 3 using 1 x by simp
qed

end
